theory Spec2Isabelle
  imports Main
begin

section \<open>Data model of the test driver (halmos/__main__.py)\<close>

text \<open>
  The orchestrator drives three collaborators that live outside the file: the symbolic
  interpreter, the constraint serialiser and the solver back end. Their objects are kept
  opaque here: a query, a rendered trace, a model body are plain values, and every call into
  a collaborator is a field of the record \<open>collab\<close> (for \<open>run_test\<close>) or \<open>interp\<close> (for the
  explorer), so each statement below holds for any behaviour of the collaborators.
\<close>

datatype exn =
    ShutdownError
  | CancelledError
  | KeyError
  | UnboundLocalError
  | ValueError
  | OtherException nat

text \<open>z3's three check results; \<open>str\<close> is what \<open>Counter(str(m.result) ...)\<close> counts.\<close>

datatype check_sat_result = sat | unsat | unknown

fun str :: "check_sat_result \<Rightarrow> string" where
  "str sat = ''sat''"
| "str unsat = ''unsat''"
| "str unknown = ''unknown''"

text \<open>\<open>collections.Counter\<close>: a missing key counts 0.\<close>

definition Counter :: "string list \<Rightarrow> string \<Rightarrow> nat" where
  "Counter xs k = count_list xs k"

datatype Exitcode = PASS | COUNTEREXAMPLE | TIMEOUT | STUCK | REVERT_ALL | EXCEPTION

fun exit_value :: "Exitcode \<Rightarrow> int" where
  "exit_value PASS = 0"
| "exit_value COUNTEREXAMPLE = 1"
| "exit_value TIMEOUT = 2"
| "exit_value STUCK = 3"
| "exit_value REVERT_ALL = 4"
| "exit_value EXCEPTION = 5"

type_synonym addr = nat
type_synonym query = nat
type_synonym fingerprint = nat

text \<open>\<open>FunctionInfo(contract_name, name, sig, selector)\<close>.\<close>

datatype fun_info = FunctionInfo (fi_contract_name: string) (fi_name: string) (fi_sig: string)
  (fi_selector: string)

text \<open>
  What \<open>context.output.error\<close> may hold: nothing, the fail cheat code's exception, or any
  other error object.
\<close>

datatype evm_error = FailCheatcode | Revert | OtherError nat

text \<open>
  A call context: its output's error, whether the interpreter reports it stuck (and why),
  the function the message was built for, and the calls made below it.
\<close>

datatype call_context =
  CallContext (output_error: "evm_error option") (stuck_reason: "string option")
    (message_fun_info: fun_info) (subcalls: "call_context list")

definition is_stuck :: "call_context \<Rightarrow> bool" where
  "is_stuck c = (stuck_reason c \<noteq> None)"

fun is_global_fail_set :: "call_context \<Rightarrow> bool" where
  "is_global_fail_set (CallContext err sr fi subs) =
     (let hevm_fail = (err = Some FailCheatcode)
      in hevm_fail \<or> list_ex is_global_fail_set subs)"

text \<open>
  Symbolic terms, as far as the driver builds them: a named bit vector of a width, a zero
  extension, a term of the interpreter's; and the one condition the driver builds, the
  comparison \<open>a >= b\<close> of two terms.
\<close>

datatype bv_term = BitVec string nat | ZeroExt nat bv_term | Term nat

datatype cond = Ge bv_term bv_term | Cond nat

record contract_code =
  contract_name :: "string option"
  filename :: string

text \<open>
  An execution state, as far as the driver reads and writes it: the code dictionary in its
  order, the call context, the path conditions, the block timestamp and the call sequence;
  \<open>body\<close> stands for everything else in the state.
\<close>

record exec =
  code :: "(addr \<times> contract_code) list"
  context' :: call_context
  path :: "cond list"
  block_timestamp :: bv_term
  call_sequence :: "call_context list"
  body :: nat

record potential_model =
  is_valid :: bool
  assignment :: nat

record solver_output =
  result :: check_sat_result
  model :: "potential_model option"
  unsat_core :: "nat list option"
  path_id :: nat

text \<open>
  A future handed to the completion callback: cancelled, finished by raising, or finished
  with a solver output.
\<close>

datatype future = Cancelled | Failed exn | Finished solver_output

text \<open>\<open>future.exception()\<close> raises on a cancelled future; \<open>future.result()\<close> raises what the work raised.\<close>

fun future_exception :: "future \<Rightarrow> exn + exn option" where
  "future_exception Cancelled = Inl CancelledError"
| "future_exception (Failed e) = Inr (Some e)"
| "future_exception (Finished out) = Inr None"

fun future_result :: "future \<Rightarrow> exn + solver_output" where
  "future_result Cancelled = Inl CancelledError"
| "future_result (Failed e) = Inl e"
| "future_result (Finished out) = Inr out"

record config =
  verbose :: int
  early_exit :: bool
  width :: nat
  no_status :: bool
  minimal_json_output :: bool
  print_failed_states :: bool
  print_blocked_states :: bool

text \<open>
  The collaborators and constants \<open>run_test\<close> uses and the file does not define:
  \<open>ex.is_panic_of(args.panic_error_codes)\<close>, \<open>ex.path.to_smt2(args)\<close>,
  \<open>solve_low_level\<close>, the two renderers, \<open>hexify\<close>, whether \<open>thread_pool.submit\<close> raises
  \<open>ShutdownError\<close> for the path with a given identifier, the number of bounded loops the
  interpreter logged, and the verbosity level from which traces are kept.
\<close>

record collab =
  is_panic_of :: "exec \<Rightarrow> bool"
  to_smt2 :: "exec \<Rightarrow> query"
  solve_low_level :: "nat \<Rightarrow> query \<Rightarrow> solver_output"
  rendered_trace :: "call_context \<Rightarrow> string"
  rendered_call_sequence :: "call_context list \<Rightarrow> string"
  hexify :: "cond list \<Rightarrow> string"
  submit_raises :: "nat \<Rightarrow> bool"
  bounded_loops :: nat
  VERBOSITY_TRACE_COUNTEREXAMPLE :: int

text \<open>What the driver writes to the log (\<open>error\<close>, \<open>warn\<close>, \<open>warn_code\<close>).\<close>

datatype log_entry =
    SolvingException exn
  | CounterexampleUnknown check_sat_result
  | CounterexampleInvalid potential_model
  | IncompleteExecution nat
  | RevertAll
  | InternalError string
  | LoopBound

text \<open>Calls on the two pools and on the blocking solver, in the order they are made.\<close>

datatype action =
    Submit nat query
  | SolveLowLevel nat query
  | ExecutorShutdown bool
  | ThreadPoolShutdown bool

text \<open>
  The mutable state of one run of \<open>run_test\<close>: the fields of the \<open>FunctionContext\<close> that
  the run writes, the shutdown flag of \<open>ctx.solving_ctx.executor\<close>, the locals of
  \<open>run_test\<close> that the callback and the loop share, the log and the calls made.
\<close>

record test_state =
  solver_outputs :: "solver_output list"
  unsat_cores :: "nat list list"
  valid_counterexamples :: "potential_model list"
  invalid_counterexamples :: "potential_model list"
  traces :: "nat \<rightharpoonup> string"
  call_sequences :: "nat \<rightharpoonup> string"
  exec_cache :: "nat \<rightharpoonup> exec"
  executor_is_shutdown :: bool
  normal :: nat
  potential :: nat
  stuck :: "(nat \<times> exec \<times> string) list"
  submitted_futures :: "nat list"
  cur_path_id :: nat
  logged :: "log_entry list"
  actions :: "action list"

definition init_test_state :: test_state where
  "init_test_state =
     \<lparr> solver_outputs = [], unsat_cores = [], valid_counterexamples = [],
       invalid_counterexamples = [], traces = Map.empty, call_sequences = Map.empty,
       exec_cache = Map.empty, executor_is_shutdown = False, normal = 0, potential = 0,
       stuck = [], submitted_futures = [], cur_path_id = 0, logged = [], actions = [] \<rparr>"

record TestResult =
  name :: string
  exitcode :: int
  num_models :: "nat option"
  models :: "potential_model list option"
  num_paths :: "(nat \<times> nat \<times> nat) option"
  num_bounded_loops :: "nat option"

section \<open>The completion callback\<close>

text \<open>
  \<open>solve_end_to_end_callback\<close>. The first component is the exception the callback ends
  with, if any; the second is the state it leaves. Printing to the terminal is not part of
  the state; the two dictionary reads that only feed a \<open>print\<close> are kept because they can
  raise.
\<close>

definition callback_tail :: "nat \<Rightarrow> test_state \<Rightarrow> exn option \<times> test_state" where
  "callback_tail pid s =
     (case call_sequences s pid of None \<Rightarrow> (Some KeyError, s) | Some sq \<Rightarrow> (None, s))"

definition solve_end_to_end_callback ::
  "collab \<Rightarrow> config \<Rightarrow> future \<Rightarrow> test_state \<Rightarrow> exn option \<times> test_state" where
  "solve_end_to_end_callback cb args fut s =
     (case future_exception fut of
        Inl e \<Rightarrow> (Some e, s)
      | Inr (Some e) \<Rightarrow>
          if e = ShutdownError then (None, s)
          else (case future_result fut of
                  Inl e' \<Rightarrow> (Some e', s\<lparr>logged := logged s @ [SolvingException e]\<rparr>)
                | Inr out \<Rightarrow> (None, s\<lparr>logged := logged s @ [SolvingException e]\<rparr>))
      | Inr None \<Rightarrow>
          (case future_result fut of
             Inl e' \<Rightarrow> (Some e', s)
           | Inr out \<Rightarrow>
               if executor_is_shutdown s then (None, s)
               else
                 let s1 = s\<lparr>solver_outputs := solver_outputs s @ [out]\<rparr> in
                 if result out = unsat then
                   (case unsat_core out of
                      None \<Rightarrow> (None, s1)
                    | Some core \<Rightarrow>
                        if core = [] then (None, s1)
                        else (None, s1\<lparr>unsat_cores := unsat_cores s1 @ [core]\<rparr>))
                 else
                   (case model out of
                      None \<Rightarrow>
                        (None, s1\<lparr>logged := logged s1 @ [CounterexampleUnknown (result out)]\<rparr>)
                    | Some m \<Rightarrow>
                        if VERBOSITY_TRACE_COUNTEREXAMPLE cb \<le> verbose args
                           \<and> traces s1 (path_id out) = None
                        then (Some KeyError, s1)
                        else if is_valid m then
                          (let s2 = s1\<lparr>valid_counterexamples := valid_counterexamples s1 @ [m]\<rparr>;
                               s3 = (if early_exit args
                                     then s2\<lparr>executor_is_shutdown := True,
                                             actions := actions s2 @ [ExecutorShutdown False]\<rparr>
                                     else s2)
                           in callback_tail (path_id out) s3)
                        else
                          callback_tail (path_id out)
                            (s1\<lparr>logged := logged s1 @ [CounterexampleInvalid m],
                                invalid_counterexamples := invalid_counterexamples s1 @ [m]\<rparr>))))"

section \<open>The exploration loop of run_test\<close>

text \<open>
  One pass through the body of \<open>for path_id, ex in enumerate(exs)\<close>. The Boolean says
  whether the pass left the loop by \<open>break\<close>.
\<close>

definition process_path ::
  "collab \<Rightarrow> config \<Rightarrow> nat \<Rightarrow> exec \<Rightarrow> test_state \<Rightarrow> bool \<times> test_state" where
  "process_path cb args pid ex s0 =
     (let s = s0\<lparr>cur_path_id := pid\<rparr> in
      if executor_is_shutdown s then (True, s)
      else
        let s1 = (if print_failed_states args then s\<lparr>exec_cache := (exec_cache s)(pid \<mapsto> ex)\<rparr>
                  else s);
            error_output = output_error (context' ex);
            panic_found = is_panic_of cb ex;
            width_break = (\<lambda>t. if width args \<noteq> 0 \<and> width args \<le> pid
                                then (True, t\<lparr>logged := logged t @ [IncompleteExecution (width args)]\<rparr>)
                                else (False, t))
        in
        if panic_found \<or> is_global_fail_set (context' ex) then
          (let s2 = s1\<lparr>potential := potential s1 + 1\<rparr>;
               s3 = (if VERBOSITY_TRACE_COUNTEREXAMPLE cb \<le> verbose args
                     then s2\<lparr>traces := (traces s2)(pid \<mapsto> rendered_trace cb (context' ex))\<rparr>
                     else s2);
               s4 = s3\<lparr>call_sequences :=
                          (call_sequences s3)(pid \<mapsto> rendered_call_sequence cb (call_sequence ex))\<rparr>;
               q = to_smt2 cb ex
           in if submit_raises cb pid then (True, s4)
              else width_break (s4\<lparr>submitted_futures := submitted_futures s4 @ [pid],
                                    actions := actions s4 @ [Submit pid q]\<rparr>))
        else if is_stuck (context' ex) then
          (let q = to_smt2 cb ex;
               out = solve_low_level cb pid q;
               s2 = s1\<lparr>actions := actions s1 @ [SolveLowLevel pid q]\<rparr>;
               s3 = (if result out \<noteq> unsat
                     then (let s' = s2\<lparr>stuck := stuck s2 @
                                       [(pid, ex, the (stuck_reason (context' ex)))]\<rparr>
                           in if print_blocked_states args
                              then s'\<lparr>traces := (traces s')(pid \<mapsto>
                                     hexify cb (path ex) @ [CHR 0x0A] @ rendered_trace cb (context' ex))\<rparr>
                              else s')
                     else s2)
           in width_break s3)
        else if error_output = None then
          width_break (s1\<lparr>normal := normal s1 + 1\<rparr>)
        else width_break s1)"

text \<open>
  What happens while the loop runs, in the order it happens: the generator \<open>exs\<close> yields a
  state, the generator raises, or a submitted future completes and its callback runs on a
  worker thread. A callback's own exception ends only the callback.
\<close>

datatype event = Yield exec | GenRaise exn | Done future

text \<open>
  The loop over a schedule of events; a state that is yielded gets the next identifier of
  \<open>enumerate\<close>. The result is the exception that escaped the generator, or the state at
  the end of the loop together with the events that had not happened by then.
\<close>

fun explore ::
  "collab \<Rightarrow> config \<Rightarrow> nat \<Rightarrow> event list \<Rightarrow> test_state \<Rightarrow> exn + (test_state \<times> event list)" where
  "explore cb args i [] s = Inr (s, [])"
| "explore cb args i (Done fut # es) s =
     explore cb args i es (snd (solve_end_to_end_callback cb args fut s))"
| "explore cb args i (GenRaise e # es) s = Inl e"
| "explore cb args i (Yield ex # es) s =
     (case process_path cb args i ex s of
        (True, s') \<Rightarrow> Inr (s', es)
      | (False, s') \<Rightarrow> explore cb args (i + 1) es s')"

text \<open>
  After the loop the generator is not pulled again; only the callbacks of the futures that
  complete later still run.
\<close>

fun drain :: "collab \<Rightarrow> config \<Rightarrow> event list \<Rightarrow> test_state \<Rightarrow> test_state" where
  "drain cb args [] s = s"
| "drain cb args (Done fut # es) s =
     drain cb args es (snd (solve_end_to_end_callback cb args fut s))"
| "drain cb args (ev # es) s = drain cb args es s"

text \<open>The classification of lines 903-922.\<close>

definition classify :: "test_state \<Rightarrow> Exitcode" where
  "classify s =
     (let counter = Counter (map (\<lambda>m. str (result m)) (solver_outputs s)) in
      if counter ''sat'' > 0 then COUNTEREXAMPLE
      else if counter ''unknown'' > 0 then TIMEOUT
      else if length (stuck s) > 0 then STUCK
      else if normal s = 0 then REVERT_ALL
      else PASS)"

text \<open>
  The part of \<open>run_test\<close> after the pool is drained (lines 894-960): the blocking shutdown
  of \<open>ctx.thread_pool\<close>, the classification, the warnings, and the result record. Timers
  are not modelled, so the result has no \<open>time\<close> field.
\<close>

definition conclude ::
  "collab \<Rightarrow> config \<Rightarrow> string \<Rightarrow> nat \<Rightarrow> test_state \<Rightarrow> TestResult \<times> test_state" where
  "conclude cb args funsig num_execs s1 =
     (let s2 = s1\<lparr>actions := actions s1 @ [ThreadPoolShutdown True]\<rparr>;
          code = classify s2;
          s3 = (if code = REVERT_ALL then s2\<lparr>logged := logged s2 @ [RevertAll]\<rparr> else s2);
          s4 = s3\<lparr>logged := logged s3 @ map (\<lambda>(p, x, err). InternalError err) (stuck s3)\<rparr>;
          s5 = (if bounded_loops cb \<noteq> 0 then s4\<lparr>logged := logged s4 @ [LoopBound]\<rparr> else s4);
          num_cexes = length (valid_counterexamples s5) + length (invalid_counterexamples s5)
      in if minimal_json_output args
         then (\<lparr> name = funsig, exitcode = exit_value code,
                  num_models = Some num_cexes, models = None, num_paths = None,
                  num_bounded_loops = None \<rparr>, s5)
         else (\<lparr> name = funsig, exitcode = exit_value code,
                  num_models = Some num_cexes,
                  models = Some (valid_counterexamples s5 @ invalid_counterexamples s5),
                  num_paths = Some (num_execs, normal s5, length (stuck s5)),
                  num_bounded_loops = Some (bounded_loops cb) \<rparr>, s5))"

datatype 'a outcome = Returns 'a | Raises exn | Hangs

text \<open>
  \<open>run_test\<close> on a schedule of events. The status loop \<open>while True\<close> ends when the
  number of finished futures equals \<open>potential\<close>; every submitted future finishes, so the
  loop ends exactly when each potential path was submitted. The callbacks of the futures
  that finish after the exploration loop run before \<open>shutdown(wait=True)\<close> returns. The
  final state is returned with the result so that what the run did can be read off.
\<close>

definition run_test ::
  "collab \<Rightarrow> config \<Rightarrow> string \<Rightarrow> event list \<Rightarrow> (TestResult \<times> test_state) outcome" where
  "run_test cb args funsig evs =
     (case explore cb args 0 evs init_test_state of
        Inl e \<Rightarrow> Raises e
      | Inr (s, rest) \<Rightarrow>
          let num_execs = cur_path_id s + 1 in
          if \<not> no_status args \<and> length (submitted_futures s) \<noteq> potential s then Hangs
          else Returns (conclude cb args funsig num_execs (drain cb args rest s)))"

section \<open>What a run of run_test has seen\<close>

text \<open>
  The states that the loop of \<open>run_test\<close> took from the generator, in the order of
  \<open>enumerate\<close>. The last of them may be the one on which the loop left.
\<close>

fun pulled :: "collab \<Rightarrow> config \<Rightarrow> nat \<Rightarrow> event list \<Rightarrow> test_state \<Rightarrow> exec list" where
  "pulled cb args i [] s = []"
| "pulled cb args i (Done fut # es) s =
     pulled cb args i es (snd (solve_end_to_end_callback cb args fut s))"
| "pulled cb args i (GenRaise e # es) s = []"
| "pulled cb args i (Yield ex # es) s =
     ex # (case process_path cb args i ex s of
             (True, s') \<Rightarrow> []
           | (False, s') \<Rightarrow> pulled cb args (i + 1) es s')"

text \<open>
  The states that the loop body looked at, each with its identifier: those pulled while the
  executor was not shut down. A state pulled after the shutdown makes the loop leave at its
  first statement.
\<close>

fun examined ::
  "collab \<Rightarrow> config \<Rightarrow> nat \<Rightarrow> event list \<Rightarrow> test_state \<Rightarrow> (nat \<times> exec) list" where
  "examined cb args i [] s = []"
| "examined cb args i (Done fut # es) s =
     examined cb args i es (snd (solve_end_to_end_callback cb args fut s))"
| "examined cb args i (GenRaise e # es) s = []"
| "examined cb args i (Yield ex # es) s =
     (if executor_is_shutdown s then []
      else (i, ex) # (case process_path cb args i ex s of
                        (True, s') \<Rightarrow> []
                      | (False, s') \<Rightarrow> examined cb args (i + 1) es s'))"

text \<open>
  The three kinds of path the loop body tells apart, in the order of its \<open>if\<close> chain
  (lines 797, 835, 851): a potential violation (a configured panic, or the fail flag set
  somewhere in the call tree); else a stuck path, which is recorded when the blocking solve
  does not answer \<open>unsat\<close>; else a path without error output, which is counted as normal.
\<close>

definition potential_violation :: "collab \<Rightarrow> exec \<Rightarrow> bool" where
  "potential_violation cb ex \<longleftrightarrow> is_panic_of cb ex \<or> is_global_fail_set (context' ex)"

definition recorded_as_stuck :: "collab \<Rightarrow> nat \<times> exec \<Rightarrow> bool" where
  "recorded_as_stuck cb p \<longleftrightarrow>
     \<not> potential_violation cb (snd p) \<and> is_stuck (context' (snd p))
     \<and> result (solve_low_level cb (fst p) (to_smt2 cb (snd p))) \<noteq> unsat"

definition counted_as_normal :: "collab \<Rightarrow> exec \<Rightarrow> bool" where
  "counted_as_normal cb ex \<longleftrightarrow>
     \<not> potential_violation cb ex \<and> \<not> is_stuck (context' ex)
     \<and> output_error (context' ex) = None"

text \<open>The outputs of the futures of a schedule that finished with a result, in order.\<close>

fun finished :: "event list \<Rightarrow> solver_output list" where
  "finished [] = []"
| "finished (Done (Finished out) # es) = out # finished es"
| "finished (ev # es) = finished es"

text \<open>
  \<open>outputs_kept s0 outs s\<close>: of the outputs \<open>outs\<close> that finished since the state \<open>s0\<close>,
  the state \<open>s\<close> has recorded an initial part, and all of them as long as the executor is
  not shut down.
\<close>

definition outputs_kept :: "test_state \<Rightarrow> solver_output list \<Rightarrow> test_state \<Rightarrow> bool" where
  "outputs_kept s0 outs s \<longleftrightarrow>
     (\<exists>k. solver_outputs s = solver_outputs s0 @ take k outs)
     \<and> (\<not> executor_is_shutdown s \<longrightarrow> solver_outputs s = solver_outputs s0 @ outs)"

section \<open>The target invocation runner\<close>

text \<open>
  The build metadata of a contract, as far as \<open>run_target_contract\<close> reads it: the
  \<open>methodIdentifiers\<close> dictionary in its order (signature, selector) and, from the ABI, the
  state mutability of each signature.
\<close>

record contract_json =
  methodIdentifiers :: "(string \<times> string) list"
  stateMutability :: "string \<rightharpoonup> string"

type_synonym solver = nat

text \<open>
  What the body of the \<open>try\<close> does for one function, from one input state. Either a
  statement before \<open>solver = mk_solver(args)\<close> has completed raises, so that this pass never
  binds \<open>solver\<close>; or the solver is created, and then the body yields some states and either
  completes or raises (while preparing the call, with no state yielded, or while the
  interpreter runs).
\<close>

datatype attempt = FailsEarly exn | Runs solver "exec list" "exn option"

text \<open>
  The collaborators of the frontier explorer that the file does not define:
  \<open>FOUNDRY_TEST\<close>, \<open>Exec.path_slice\<close>, \<open>snapshot_state\<close> behind \<open>get_state_id\<close>,
  \<open>is_panic_of\<close> for the configured panic codes, \<open>BuildOut().get_by_name\<close>, the interpreter
  behind the \<open>try\<close> body, and \<open>uid\<close>: \<open>uid_value k\<close> is what the k-th call of \<open>uid()\<close> made
  by \<open>_compute_frontier\<close> returns.
\<close>

record interp =
  FOUNDRY_TEST :: addr
  path_slice :: "exec \<Rightarrow> exec"
  snapshot_state :: "exec \<Rightarrow> fingerprint"
  panics :: "exec \<Rightarrow> bool"
  get_by_name :: "string \<Rightarrow> string \<Rightarrow> exn + contract_json"
  attempt_of :: "exec \<Rightarrow> addr \<Rightarrow> fun_info \<Rightarrow> attempt"
  uid_value :: "nat \<Rightarrow> string"

definition get_state_id :: "interp \<Rightarrow> exec \<Rightarrow> fingerprint" where
  "get_state_id I ex = snapshot_state I ex"

text \<open>
  What one run of the generator \<open>run_target_contract\<close> does when it is consumed to its end:
  the states it yields, the solvers passed to \<open>reset\<close>, the functions whose failure it
  logged with \<open>error\<close>, and the exception that ends it, if one does.
\<close>

record target_run =
  yielded :: "exec list"
  resets :: "solver list"
  failures :: "(string \<times> exn) list"
  raised :: "exn option"

definition no_run :: target_run where
  "no_run = \<lparr> yielded = [], resets = [], failures = [], raised = None \<rparr>"

text \<open>
  The loop over \<open>method_identifiers.items()\<close>. \<open>sv\<close> is the local variable \<open>solver\<close>:
  \<open>None\<close> while no pass has bound it. The \<open>finally\<close> clause reads the variable, bound or
  not.
\<close>

fun run_functions ::
  "interp \<Rightarrow> exec \<Rightarrow> addr \<Rightarrow> string \<Rightarrow> contract_json \<Rightarrow> (string \<times> string) list
   \<Rightarrow> solver option \<Rightarrow> target_run \<Rightarrow> target_run" where
  "run_functions I ex a cname cj [] sv acc = acc"
| "run_functions I ex a cname cj ((fun_sig, fun_selector) # rest) sv acc =
     (let fun_name = takeWhile (\<lambda>ch. ch \<noteq> CHR ''('') fun_sig;
          fun_info = FunctionInfo cname fun_name fun_sig fun_selector
      in case stateMutability cj fun_sig of
           None \<Rightarrow> acc\<lparr>raised := Some KeyError\<rparr>
         | Some state_mutability \<Rightarrow>
             if state_mutability \<in> set [''pure'', ''view'']
             then run_functions I ex a cname cj rest sv acc
             else (case attempt_of I ex a fun_info of
                     FailsEarly err \<Rightarrow>
                       (let acc1 = acc\<lparr>failures := failures acc @ [(fun_sig, err)]\<rparr>
                        in case sv of
                             None \<Rightarrow> acc1\<lparr>raised := Some UnboundLocalError\<rparr>
                           | Some old \<Rightarrow>
                               run_functions I ex a cname cj rest sv
                                 (acc1\<lparr>resets := resets acc1 @ [old]\<rparr>))
                   | Runs new exs None \<Rightarrow>
                       run_functions I ex a cname cj rest (Some new)
                         (acc\<lparr>yielded := yielded acc @ exs, resets := resets acc @ [new]\<rparr>)
                   | Runs new exs (Some err) \<Rightarrow>
                       run_functions I ex a cname cj rest (Some new)
                         (acc\<lparr>yielded := yielded acc @ exs,
                              failures := failures acc @ [(fun_sig, err)],
                              resets := resets acc @ [new]\<rparr>)))"

definition run_target_contract :: "interp \<Rightarrow> exec \<Rightarrow> addr \<Rightarrow> target_run" where
  "run_target_contract I ex a =
     (case map_of (code ex) a of
        None \<Rightarrow> no_run\<lparr>raised := Some KeyError\<rparr>
      | Some cc \<Rightarrow>
          (case contract_name cc of
             None \<Rightarrow> no_run\<lparr>raised := Some ValueError\<rparr>
           | Some cname \<Rightarrow>
               if cname = [] then no_run\<lparr>raised := Some ValueError\<rparr>
               else (case get_by_name I cname (filename cc) of
                       Inl err \<Rightarrow> no_run\<lparr>raised := Some err\<rparr>
                     | Inr cj \<Rightarrow>
                         run_functions I ex a cname cj (methodIdentifiers cj) None no_run)))"

section \<open>The frontier explorer\<close>

text \<open>Decimal rendering of an integer, as an f-string prints it.\<close>

fun str_nat :: "nat \<Rightarrow> string" where
  "str_nat n =
     (if n < 10 then [char_of (48 + n)] else str_nat (n div 10) @ [char_of (48 + n mod 10)])"

definition str_int :: "int \<Rightarrow> string" where
  "str_int i = (if i < 0 then CHR ''-'' # str_nat (nat (- i)) else str_nat (nat i))"

text \<open>What \<open>_compute_frontier\<close> reports: a stuck post-state, and a probe.\<close>

datatype report = StuckState int addr string | AssertionFailure fun_info "call_context list"

text \<open>
  The part of the \<open>ContractContext\<close> that the explorer reads and writes: the Frontier
  Cache, the Visited Set and the Probe Registry; with them, what was reported and how many
  times \<open>_compute_frontier\<close> has called \<open>uid()\<close>.
\<close>

record contract_ctx =
  frontier_states :: "int \<rightharpoonup> exec list"
  visited :: "fingerprint set"
  probes_reported :: "fun_info set"
  reports :: "report list"
  uid_calls :: nat

text \<open>
  The body of \<open>for post_ex in post_exs\<close> (lines 561-615). The result is the state that
  is yielded, if one is, and the context afterwards. \<open>subcall\<close> is read before
  \<open>path_slice\<close> runs. \<open>next_exs\<close> is the list stored under \<open>frontier_states[depth]\<close>, so
  appending to it extends the cache entry.
\<close>

definition visit_post ::
  "interp \<Rightarrow> int \<Rightarrow> exec \<Rightarrow> addr \<Rightarrow> exec \<Rightarrow> contract_ctx \<Rightarrow> exec option \<times> contract_ctx" where
  "visit_post I depth pre_ex a post_ex c =
     (let subcall = context' post_ex in
      if is_stuck subcall then
        (None, c\<lparr>reports := reports c @ [StuckState depth a (the (stuck_reason subcall))]\<rparr>)
      else if output_error subcall \<noteq> None then
        (if \<not> panics I post_ex then (None, c)
         else
           let fun_info = message_fun_info (context' post_ex) in
           if fun_info \<in> probes_reported c then (None, c)
           else (None, c\<lparr>probes_reported := insert fun_info (probes_reported c),
                          reports := reports c @ [AssertionFailure fun_info (call_sequence post_ex)]\<rparr>))
      else
        let sliced = path_slice I post_ex;
            post_id = get_state_id I sliced
        in if post_id \<in> visited c then (None, c)
           else
             let timestamp_name = ''halmos_block_timestamp_depth'' @ str_int depth @ ''_''
                                    @ uid_value I (uid_calls c);
                 timestamp = ZeroExt 192 (BitVec timestamp_name 64);
                 placed = sliced\<lparr>call_sequence := call_sequence pre_ex @ [subcall],
                                  block_timestamp := timestamp,
                                  path := path sliced @ [Ge timestamp (block_timestamp pre_ex)]\<rparr>
             in (Some placed,
                 c\<lparr>visited := insert post_id (visited c),
                   uid_calls := uid_calls c + 1,
                   frontier_states := (frontier_states c)
                      (depth \<mapsto> (case frontier_states c depth of None \<Rightarrow> [] | Some next_exs \<Rightarrow> next_exs)
                                 @ [placed])\<rparr>))"

text \<open>
  The three nested loops. The generator runs only while its consumer pulls: \<open>n\<close> is the
  number of states the consumer still takes, and the generator stops where it stands once
  the last of them is yielded. An exception of \<open>run_target_contract\<close> leaves all three
  loops, after the states yielded before it have been handled.
\<close>

fun visit_posts ::
  "interp \<Rightarrow> int \<Rightarrow> exec \<Rightarrow> addr \<Rightarrow> exec list \<Rightarrow> nat \<Rightarrow> contract_ctx \<Rightarrow> nat \<times> contract_ctx" where
  "visit_posts I depth pre_ex a [] n c = (n, c)"
| "visit_posts I depth pre_ex a (post_ex # post_exs) n c =
     (if n = 0 then (0, c)
      else (case visit_post I depth pre_ex a post_ex c of
              (None, c') \<Rightarrow> visit_posts I depth pre_ex a post_exs n c'
            | (Some placed, c') \<Rightarrow> visit_posts I depth pre_ex a post_exs (n - 1) c'))"

fun visit_addrs ::
  "interp \<Rightarrow> int \<Rightarrow> exec \<Rightarrow> addr list \<Rightarrow> nat \<Rightarrow> contract_ctx
   \<Rightarrow> exn option \<times> nat \<times> contract_ctx" where
  "visit_addrs I depth pre_ex [] n c = (None, n, c)"
| "visit_addrs I depth pre_ex (a # as) n c =
     (if n = 0 then (None, 0, c)
      else if a = FOUNDRY_TEST I then visit_addrs I depth pre_ex as n c
      else
        let post_exs = run_target_contract I pre_ex a in
        (case visit_posts I depth pre_ex a (yielded post_exs) n c of
           (n', c') \<Rightarrow>
             if n' = 0 then (None, 0, c')
             else (case raised post_exs of
                     Some err \<Rightarrow> (Some err, n', c')
                   | None \<Rightarrow> visit_addrs I depth pre_ex as n' c')))"

fun visit_states ::
  "interp \<Rightarrow> int \<Rightarrow> exec list \<Rightarrow> nat \<Rightarrow> contract_ctx \<Rightarrow> exn option \<times> nat \<times> contract_ctx" where
  "visit_states I depth [] n c = (None, n, c)"
| "visit_states I depth (pre_ex # curr_exs) n c =
     (if n = 0 then (None, 0, c)
      else (case visit_addrs I depth pre_ex (map fst (code pre_ex)) n c of
              (Some err, n', c') \<Rightarrow> (Some err, n', c')
            | (None, n', c') \<Rightarrow> visit_states I depth curr_exs n' c'))"

text \<open>
  \<open>_compute_frontier(ctx, depth)\<close>, consumed for \<open>n\<close> states. A generator that is never
  pulled runs none of its body. The result is the exception that escaped, if any, and the
  context afterwards; the states yielded are the ones appended to the cache entry.
\<close>

definition compute_frontier ::
  "interp \<Rightarrow> contract_ctx \<Rightarrow> int \<Rightarrow> nat \<Rightarrow> exn option \<times> contract_ctx" where
  "compute_frontier I c depth n =
     (if n = 0 then (None, c)
      else (case frontier_states c (depth - 1) of
              None \<Rightarrow> (Some KeyError, c)
            | Some curr_exs \<Rightarrow>
                (case visit_states I depth curr_exs n
                        (c\<lparr>frontier_states := (frontier_states c)(depth \<mapsto> [])\<rparr>) of
                   (err, n', c') \<Rightarrow> (err, c'))))"

text \<open>
  \<open>get_frontier(ctx, depth)\<close>, consumed for \<open>n\<close> states: the exception, the sequence the
  caller iterates over, and the context afterwards.
\<close>

definition get_frontier ::
  "interp \<Rightarrow> contract_ctx \<Rightarrow> int \<Rightarrow> nat \<Rightarrow> exn option \<times> exec list \<times> contract_ctx" where
  "get_frontier I c depth n =
     (case frontier_states c depth of
        Some frontier \<Rightarrow> (None, frontier, c)
      | None \<Rightarrow>
          (case compute_frontier I c depth n of
             (err, c') \<Rightarrow>
               (err, (case frontier_states c' depth of None \<Rightarrow> [] | Some next_exs \<Rightarrow> next_exs), c')))"

text \<open>
  \<open>run_contract\<close>, lines 1006-1020: the setup state is path-sliced, becomes the only state
  of depth 0, and its fingerprint the only visited one. The context is new at this point.
\<close>

definition run_contract_init :: "interp \<Rightarrow> exec \<Rightarrow> contract_ctx" where
  "run_contract_init I setup_ex =
     (let sliced = path_slice I setup_ex
      in \<lparr> frontier_states = [0 \<mapsto> [sliced]], visited = {get_state_id I sliced},
           probes_reported = {}, reports = [], uid_calls = 0 \<rparr>)"

text \<open>
  The tests of a contract call \<open>get_frontier\<close> one call after the other, each for a depth
  and each pulling some number of states before it stops or is abandoned; a call that
  raises ends its test only, and the next test goes on from the context as it is.
\<close>

fun get_frontiers :: "interp \<Rightarrow> (int \<times> nat) list \<Rightarrow> contract_ctx \<Rightarrow> contract_ctx" where
  "get_frontiers I [] c = c"
| "get_frontiers I ((depth, n) # calls) c =
     get_frontiers I calls (snd (snd (get_frontier I c depth n)))"

section \<open>What the explorer maintains\<close>

text \<open>
  \<open>extends_state depth p s\<close>: the state \<open>s\<close> was placed in the frontier of \<open>depth\<close> from
  the predecessor \<open>p\<close>. Its call sequence is that of \<open>p\<close> with one call context appended;
  its timestamp is a 64-bit symbol, named for the depth, zero-extended by 192 bits; and the
  last condition of its path is that this timestamp is at least the timestamp of \<open>p\<close>.
\<close>

definition timestamp_prefix :: "int \<Rightarrow> string" where
  "timestamp_prefix depth = ''halmos_block_timestamp_depth'' @ str_int depth @ ''_''"

definition extends_state :: "int \<Rightarrow> exec \<Rightarrow> exec \<Rightarrow> bool" where
  "extends_state depth p s \<longleftrightarrow>
     call_sequence s \<noteq> [] \<and> butlast (call_sequence s) = call_sequence p
     \<and> (case block_timestamp s of
          ZeroExt w (BitVec nm b) \<Rightarrow>
            w = 192 \<and> b = 64
            \<and> take (length (timestamp_prefix depth)) nm = timestamp_prefix depth
        | _ \<Rightarrow> False)
     \<and> path s \<noteq> [] \<and> last (path s) = Ge (block_timestamp s) (block_timestamp p)"

text \<open>The number of states in all frontiers of the cache.\<close>

definition placed_states :: "contract_ctx \<Rightarrow> nat" where
  "placed_states c = (\<Sum>d \<in> dom (frontier_states c). length (the (frontier_states c d)))"

text \<open>
  \<open>appended depth pres c c' new\<close>: from \<open>c\<close> to \<open>c'\<close> the states \<open>new\<close> were appended to
  the frontier of \<open>depth\<close>, each from a predecessor in \<open>pres\<close> and each with a fingerprint
  that was not visited before; nothing else in the cache changed.
\<close>

definition appended :: "int \<Rightarrow> exec set \<Rightarrow> contract_ctx \<Rightarrow> contract_ctx \<Rightarrow> exec list \<Rightarrow> bool" where
  "appended depth pres c c' new \<longleftrightarrow>
     (\<exists>old. frontier_states c depth = Some old
            \<and> frontier_states c' = (frontier_states c)(depth \<mapsto> old @ new))
     \<and> visited c \<subseteq> visited c'
     \<and> (finite (visited c) \<longrightarrow>
          finite (visited c') \<and> card (visited c') = card (visited c) + length new)
     \<and> (\<forall>s \<in> set new. \<exists>p \<in> pres. extends_state depth p s)"

text \<open>
  The invariant of the cache: depths are not negative and every depth but 0 has its
  predecessor depth in the cache; there are as many visited fingerprints as states placed;
  and every state of a depth other than 0 extends a state of the depth before.
\<close>

definition frontier_inv :: "contract_ctx \<Rightarrow> bool" where
  "frontier_inv c \<longleftrightarrow>
     finite (dom (frontier_states c)) \<and> finite (visited c)
     \<and> (\<forall>d \<in> dom (frontier_states c). 0 \<le> d \<and> (d = 0 \<or> d - 1 \<in> dom (frontier_states c)))
     \<and> card (visited c) = placed_states c
     \<and> (\<forall>d fr s. frontier_states c d = Some fr \<longrightarrow> s \<in> set fr \<longrightarrow> d \<noteq> 0 \<longrightarrow>
           (\<exists>frp. frontier_states c (d - 1) = Some frp
                  \<and> (\<exists>p \<in> set frp. extends_state d p s)))"

section \<open>Concrete inputs\<close>

text \<open>Small collaborators and states on which the statements below are run.\<close>

definition example_fun_info :: fun_info where
  "example_fun_info = FunctionInfo ''C'' ''f'' ''f()'' ''26121ff0''"

definition example_collab :: collab where
  "example_collab =
     \<lparr> is_panic_of = (\<lambda>ex. body ex = 7), to_smt2 = body,
       solve_low_level = (\<lambda>pid q. \<lparr> result = (if q = 0 then unsat else unknown), model = None,
                                     unsat_core = None, path_id = pid \<rparr>),
       rendered_trace = (\<lambda>c. ''trace''), rendered_call_sequence = (\<lambda>cs. ''''),
       hexify = (\<lambda>p. ''path''),
       submit_raises = (\<lambda>pid. False), bounded_loops = 0, VERBOSITY_TRACE_COUNTEREXAMPLE = 2 \<rparr>"

definition example_args :: config where
  "example_args =
     \<lparr> verbose = 0, early_exit = True, width = 0, no_status = False,
       minimal_json_output = False, print_failed_states = False, print_blocked_states = False \<rparr>"

definition example_exec :: "evm_error option \<Rightarrow> string option \<Rightarrow> nat \<Rightarrow> exec" where
  "example_exec err sr b =
     \<lparr> code = [], context' = CallContext err sr example_fun_info [], path = [],
       block_timestamp = Term 1, call_sequence = [], body = b \<rparr>"

definition example_sat_output :: solver_output where
  "example_sat_output =
     \<lparr> result = sat, model = Some \<lparr> is_valid = True, assignment = 1 \<rparr>, unsat_core = None,
       path_id = 0 \<rparr>"

text \<open>
  A target contract with two state-changing functions. In \<open>example_interp\<close> the set-up of
  \<open>f()\<close> fails before its solver exists and \<open>g()\<close> runs; in \<open>example_interp_late\<close> the
  call of \<open>f()\<close> fails after its solver was created.
\<close>

definition example_target :: exec where
  "example_target =
     \<lparr> code = [(1, \<lparr> contract_name = Some ''C'', filename = ''C.sol'' \<rparr>)],
       context' = CallContext None None example_fun_info [], path = [],
       block_timestamp = Term 1, call_sequence = [], body = 0 \<rparr>"

definition example_json :: contract_json where
  "example_json =
     \<lparr> methodIdentifiers = [(''f()'', ''26121ff0''), (''g()'', ''e2179b8e'')],
       stateMutability = [''f()'' \<mapsto> ''nonpayable'', ''g()'' \<mapsto> ''nonpayable''] \<rparr>"

definition example_interp :: interp where
  "example_interp =
     \<lparr> FOUNDRY_TEST = 0, path_slice = (\<lambda>ex. ex), snapshot_state = body,
       panics = (\<lambda>ex. False), get_by_name = (\<lambda>n f. Inr example_json),
       attempt_of = (\<lambda>ex a fi. if fi_sig fi = ''f()'' then FailsEarly (OtherException 1)
                                 else Runs 2 [example_exec None None (body ex + 1)] None),
       uid_value = (\<lambda>k. replicate (Suc k) CHR ''a'') \<rparr>"

definition example_interp_late :: interp where
  "example_interp_late =
     example_interp\<lparr>attempt_of :=
        (\<lambda>ex a fi. if fi_sig fi = ''f()'' then Runs 1 [] (Some (OtherException 1))
                    else Runs 2 [example_exec None None (body ex + 1)] None)\<rparr>"

text \<open>
  The state that the explorer places at depth 1 from \<open>example_target\<close>, and the context
  after a first test has asked for the depths 0 and 1.
\<close>

definition example_placed :: exec where
  "example_placed =
     (example_exec None None 1)
       \<lparr> call_sequence := [CallContext None None example_fun_info []],
         block_timestamp := ZeroExt 192 (BitVec ''halmos_block_timestamp_depth1_a'' 64),
         path := [Ge (ZeroExt 192 (BitVec ''halmos_block_timestamp_depth1_a'' 64)) (Term 1)] \<rparr>"

definition example_calls :: "(int \<times> nat) list" where
  "example_calls = [(0, 1), (1, 5)]"

text \<open>
  A state that neither reverted nor got stuck, with the fail flag set in a subcall; and the
  solver's answer that its path is infeasible.
\<close>

definition example_fail_exec :: exec where
  "example_fail_exec =
     \<lparr> code = [],
       context' = CallContext None None example_fun_info
                    [CallContext (Some FailCheatcode) None example_fun_info []],
       path = [], block_timestamp = Term 1, call_sequence = [], body = 0 \<rparr>"

definition example_unsat_output :: solver_output where
  "example_unsat_output = \<lparr> result = unsat, model = None, unsat_core = None, path_id = 0 \<rparr>"

section \<open>Facts about the classification and the result\<close>

lemma str_inj: "str a = str b \<longleftrightarrow> a = b"
  by (cases a; cases b) simp_all

lemma Counter_pos:
  "0 < Counter (map (\<lambda>m. str (result m)) outs) (str r) \<longleftrightarrow> (\<exists>m \<in> set outs. result m = r)"
  by (induction outs) (auto simp: Counter_def str_inj)

lemma classify_priority:
  "classify t =
     (if (\<exists>m \<in> set (solver_outputs t). result m = sat) then COUNTEREXAMPLE
      else if (\<exists>m \<in> set (solver_outputs t). result m = unknown) then TIMEOUT
      else if stuck t \<noteq> [] then STUCK
      else if normal t = 0 then REVERT_ALL
      else PASS)"
  using Counter_pos [of "solver_outputs t" sat] Counter_pos [of "solver_outputs t" unknown]
  by (simp add: classify_def)

lemma conclude_exitcode:
  "exitcode (fst (conclude cb args funsig n s)) = exit_value (classify s)"
  by (simp add: conclude_def Let_def classify_def)

lemma conclude_solver_outputs:
  "solver_outputs (snd (conclude cb args funsig n s)) = solver_outputs s"
  by (simp add: conclude_def Let_def)

lemma conclude_stuck: "stuck (snd (conclude cb args funsig n s)) = stuck s"
  by (simp add: conclude_def Let_def)

lemma conclude_normal: "normal (snd (conclude cb args funsig n s)) = normal s"
  by (simp add: conclude_def Let_def)

lemma classify_conclude: "classify (snd (conclude cb args funsig n s)) = classify s"
  by (simp add: classify_def conclude_solver_outputs conclude_stuck conclude_normal)

lemma run_test_Returns:
  assumes "run_test cb args funsig evs = Returns (r, s)"
  obtains t rest where "explore cb args 0 evs init_test_state = Inr (t, rest)"
    and "no_status args \<or> length (submitted_futures t) = potential t"
    and "(r, s) = conclude cb args funsig (cur_path_id t + 1) (drain cb args rest t)"
  using assms unfolding run_test_def Let_def
  by (cases "explore cb args 0 evs init_test_state") (auto split: prod.splits if_splits)

section \<open>Facts about the callback\<close>

lemma callback_tail_snd: "snd (callback_tail pid s) = s"
  by (simp add: callback_tail_def split: option.splits)

lemma callback_Cancelled: "solve_end_to_end_callback cb args Cancelled s = (Some CancelledError, s)"
  by (simp add: solve_end_to_end_callback_def)

lemma callback_Failed:
  "solve_end_to_end_callback cb args (Failed e) s =
     (if e = ShutdownError then (None, s)
      else (Some e, s\<lparr>logged := logged s @ [SolvingException e]\<rparr>))"
  by (simp add: solve_end_to_end_callback_def)

lemma callback_Finished_shutdown:
  "executor_is_shutdown s \<Longrightarrow> solve_end_to_end_callback cb args (Finished out) s = (None, s)"
  by (simp add: solve_end_to_end_callback_def)

text \<open>The fields the callback never writes.\<close>

lemma callback_locals:
  "normal (snd (solve_end_to_end_callback cb args fut s)) = normal s
   \<and> stuck (snd (solve_end_to_end_callback cb args fut s)) = stuck s
   \<and> potential (snd (solve_end_to_end_callback cb args fut s)) = potential s
   \<and> submitted_futures (snd (solve_end_to_end_callback cb args fut s)) = submitted_futures s
   \<and> cur_path_id (snd (solve_end_to_end_callback cb args fut s)) = cur_path_id s"
proof (cases fut)
  case Cancelled
  then show ?thesis by (simp add: callback_Cancelled)
next
  case (Failed e)
  then show ?thesis by (simp add: callback_Failed)
next
  case (Finished out)
  then show ?thesis
    by (simp add: solve_end_to_end_callback_def Let_def callback_tail_snd
        split: option.splits)
qed

section \<open>Facts about the loop of run_test\<close>

lemma process_path_shutdown:
  "executor_is_shutdown s \<Longrightarrow> process_path cb args pid ex s = (True, s\<lparr>cur_path_id := pid\<rparr>)"
  by (simp add: process_path_def)

lemma process_path_cur_path_id: "cur_path_id (snd (process_path cb args pid ex s)) = pid"
  by (simp add: process_path_def Let_def)

lemma process_path_normal:
  "\<not> executor_is_shutdown s \<Longrightarrow>
     normal (snd (process_path cb args pid ex s))
       = normal s + (if counted_as_normal cb ex then 1 else 0)"
  by (simp add: process_path_def Let_def counted_as_normal_def potential_violation_def)

lemma process_path_recorded_stuck:
  "\<not> executor_is_shutdown s \<Longrightarrow>
     stuck (snd (process_path cb args pid ex s))
       = stuck s @ (if recorded_as_stuck cb (pid, ex)
                    then [(pid, ex, the (stuck_reason (context' ex)))] else [])"
  by (simp add: process_path_def Let_def recorded_as_stuck_def potential_violation_def)

lemma process_path_outputs:
  "solver_outputs (snd (process_path cb args pid ex s)) = solver_outputs s"
  "executor_is_shutdown (snd (process_path cb args pid ex s)) = executor_is_shutdown s"
  by (simp_all add: process_path_def Let_def)

lemma drain_locals:
  "normal (drain cb args es s) = normal s \<and> stuck (drain cb args es s) = stuck s
   \<and> cur_path_id (drain cb args es s) = cur_path_id s"
proof (induction es arbitrary: s)
  case Nil
  then show ?case by simp
next
  case (Cons ev es)
  then show ?case using callback_locals by (cases ev) simp_all
qed

text \<open>
  The identifier left after the loop is that of the last state pulled from the generator,
  and the initial one when none was pulled.
\<close>

lemma explore_pulled:
  assumes "explore cb args i evs s = Inr (t, rest)"
  shows "cur_path_id t =
           (if pulled cb args i evs s = [] then cur_path_id s
            else i + length (pulled cb args i evs s) - 1)"
  using assms
proof (induction evs arbitrary: i s)
  case Nil
  then show ?case by simp
next
  case (Cons ev evs)
  show ?case
  proof (cases ev)
    case (Yield ex)
    obtain b s' where p: "process_path cb args i ex s = (b, s')"
      by (cases "process_path cb args i ex s")
    have id: "cur_path_id s' = i"
      using process_path_cur_path_id [of cb args i ex s] p by simp
    show ?thesis
    proof (cases b)
      case True
      with Cons.prems Yield p have "t = s'" by simp
      with id Yield p True show ?thesis by simp
    next
      case False
      with Cons.prems Yield p have "explore cb args (i + 1) evs s' = Inr (t, rest)" by simp
      from Cons.IH [OF this] id Yield p False show ?thesis by simp
    qed
  next
    case (GenRaise e)
    with Cons.prems show ?thesis by simp
  next
    case (Done fut)
    with Cons.prems have
      "explore cb args i evs (snd (solve_end_to_end_callback cb args fut s)) = Inr (t, rest)"
      by simp
    from Cons.IH [OF this] callback_locals [of cb args fut s] Done show ?thesis by simp
  qed
qed

lemma pulled_no_yield: "\<forall>ex. Yield ex \<notin> set evs \<Longrightarrow> pulled cb args i evs s = []"
proof (induction evs arbitrary: s)
  case Nil
  then show ?case by simp
next
  case (Cons ev evs)
  then show ?case by (cases ev) auto
qed

lemma examined_no_yield: "\<forall>ex. Yield ex \<notin> set evs \<Longrightarrow> examined cb args i evs s = []"
proof (induction evs arbitrary: s)
  case Nil
  then show ?case by simp
next
  case (Cons ev evs)
  then show ?case by (cases ev) auto
qed

text \<open>
  The counter \<open>normal\<close> and the list \<open>stuck\<close> after the loop, in terms of the states the
  loop body looked at.
\<close>

lemma explore_examined:
  assumes "explore cb args i evs s = Inr (t, rest)"
  shows "normal t = normal s
           + length (filter (\<lambda>p. counted_as_normal cb (snd p)) (examined cb args i evs s))
     \<and> stuck t = stuck s
           @ map (\<lambda>p. (fst p, snd p, the (stuck_reason (context' (snd p)))))
               (filter (recorded_as_stuck cb) (examined cb args i evs s))"
  using assms
proof (induction evs arbitrary: i s)
  case Nil
  then show ?case by simp
next
  case (Cons ev evs)
  show ?case
  proof (cases ev)
    case (Yield ex)
    show ?thesis
    proof (cases "executor_is_shutdown s")
      case True
      with Cons.prems Yield show ?thesis by (auto simp: process_path_shutdown)
    next
      case running: False
      obtain b s' where p: "process_path cb args i ex s = (b, s')"
        by (cases "process_path cb args i ex s")
      have n: "normal s' = normal s + (if counted_as_normal cb ex then 1 else 0)"
        using process_path_normal [OF running, of cb args i ex] p by simp
      have k: "stuck s' = stuck s @ (if recorded_as_stuck cb (i, ex)
                    then [(i, ex, the (stuck_reason (context' ex)))] else [])"
        using process_path_recorded_stuck [OF running, of cb args i ex] p by simp
      show ?thesis
      proof (cases b)
        case True
        with Cons.prems Yield p have "t = s'" by simp
        with n k Yield p True running show ?thesis by simp
      next
        case False
        with Cons.prems Yield p have "explore cb args (i + 1) evs s' = Inr (t, rest)" by simp
        from Cons.IH [OF this] n k Yield p False running show ?thesis by simp
      qed
    qed
  next
    case (GenRaise e)
    with Cons.prems show ?thesis by simp
  next
    case (Done fut)
    with Cons.prems have
      "explore cb args i evs (snd (solve_end_to_end_callback cb args fut s)) = Inr (t, rest)"
      by simp
    from Cons.IH [OF this] callback_locals [of cb args fut s] Done show ?thesis by simp
  qed
qed

lemma conclude_num_paths:
  "num_paths (fst (conclude cb args funsig n s)) =
     (if minimal_json_output args then None else Some (n, normal s, length (stuck s)))"
  by (simp add: conclude_def Let_def)

lemma conclude_cur_path_id: "cur_path_id (snd (conclude cb args funsig n s)) = cur_path_id s"
  by (simp add: conclude_def Let_def)

text \<open>
  A run that returns, taken apart: the state \<open>t\<close> after the loop, the state \<open>d\<close> after the
  callbacks of the remaining futures, and what both keep of the loop.
\<close>

lemma run_test_parts:
  assumes "run_test cb args funsig evs = Returns (r, s)"
  obtains t rest d where
    "explore cb args 0 evs init_test_state = Inr (t, rest)"
    "d = drain cb args rest t"
    "r = fst (conclude cb args funsig (cur_path_id t + 1) d)"
    "s = snd (conclude cb args funsig (cur_path_id t + 1) d)"
    "normal s = normal t" "stuck s = stuck t" "cur_path_id s = cur_path_id t"
    "normal d = normal t" "stuck d = stuck t"
proof -
  from assms obtain t rest where
    ex: "explore cb args 0 evs init_test_state = Inr (t, rest)" and
    rs: "(r, s) = conclude cb args funsig (cur_path_id t + 1) (drain cb args rest t)"
    by (rule run_test_Returns)
  let ?d = "drain cb args rest t"
  have r: "r = fst (conclude cb args funsig (cur_path_id t + 1) ?d)"
    and s: "s = snd (conclude cb args funsig (cur_path_id t + 1) ?d)"
    using rs by (metis fst_conv, metis snd_conv)
  have d: "normal ?d = normal t" "stuck ?d = stuck t" "cur_path_id ?d = cur_path_id t"
    using drain_locals [of cb args rest t] by simp_all
  have "normal s = normal t" "stuck s = stuck t" "cur_path_id s = cur_path_id t"
    using d by (simp_all add: s conclude_normal conclude_stuck conclude_cur_path_id)
  with ex r s d show ?thesis using that by blast
qed

section \<open>Facts about the recorded outputs\<close>

lemma finished_append: "finished (xs @ ys) = finished xs @ finished ys"
  by (induction xs rule: finished.induct) simp_all

lemma callback_outputs:
  "solver_outputs (snd (solve_end_to_end_callback cb args fut s))
     = solver_outputs s @ (if executor_is_shutdown s then [] else finished [Done fut])"
proof (cases fut)
  case Cancelled
  then show ?thesis by (simp add: callback_Cancelled)
next
  case (Failed e)
  then show ?thesis by (simp add: callback_Failed)
next
  case (Finished out)
  then show ?thesis
    by (simp add: solve_end_to_end_callback_def Let_def callback_tail_snd
        split: option.splits)
qed

lemma callback_stays_shutdown:
  assumes "executor_is_shutdown s"
  shows "executor_is_shutdown (snd (solve_end_to_end_callback cb args fut s))"
proof (cases fut)
  case Cancelled
  with assms show ?thesis by (simp add: callback_Cancelled)
next
  case (Failed e)
  with assms show ?thesis by (simp add: callback_Failed)
next
  case (Finished out)
  with assms show ?thesis by (simp add: callback_Finished_shutdown)
qed

lemma outputs_kept_refl: "outputs_kept s [] s"
  by (simp add: outputs_kept_def)

lemma outputs_kept_more:
  assumes "outputs_kept s0 outs s"
    and "solver_outputs s' = solver_outputs s @ (if executor_is_shutdown s then [] else new)"
    and "executor_is_shutdown s \<Longrightarrow> executor_is_shutdown s'"
  shows "outputs_kept s0 (outs @ new) s'"
proof (cases "executor_is_shutdown s")
  case True
  from assms(1) obtain k where k: "solver_outputs s = solver_outputs s0 @ take k outs"
    by (auto simp: outputs_kept_def)
  have "take k outs = take (min k (length outs)) (outs @ new)"
    by (cases "k \<le> length outs") (simp_all add: min_def)
  with k True assms(2) have "solver_outputs s' = solver_outputs s0 @ take (min k (length outs)) (outs @ new)"
    by simp
  moreover from True assms(3) have "executor_is_shutdown s'" by simp
  ultimately show ?thesis unfolding outputs_kept_def by blast
next
  case False
  with assms(1) have "solver_outputs s = solver_outputs s0 @ outs"
    by (simp add: outputs_kept_def)
  with False assms(2) have a: "solver_outputs s' = solver_outputs s0 @ (outs @ new)" by simp
  then have "solver_outputs s' = solver_outputs s0 @ take (length (outs @ new)) (outs @ new)"
    by simp
  with a show ?thesis unfolding outputs_kept_def by blast
qed

lemma outputs_kept_same:
  assumes "outputs_kept s0 outs s" "solver_outputs s' = solver_outputs s"
    "executor_is_shutdown s' = executor_is_shutdown s"
  shows "outputs_kept s0 outs s'"
  using assms by (simp add: outputs_kept_def)

lemma outputs_kept_callback:
  assumes "outputs_kept s0 outs s"
  shows "outputs_kept s0 (outs @ finished [Done fut])
           (snd (solve_end_to_end_callback cb args fut s))"
proof (rule outputs_kept_more [OF assms])
  show "solver_outputs (snd (solve_end_to_end_callback cb args fut s))
     = solver_outputs s @ (if executor_is_shutdown s then [] else finished [Done fut])"
    by (rule callback_outputs)
  show "executor_is_shutdown s
    \<Longrightarrow> executor_is_shutdown (snd (solve_end_to_end_callback cb args fut s))"
    by (rule callback_stays_shutdown)
qed

lemma drain_outputs:
  "outputs_kept s0 outs s \<Longrightarrow> outputs_kept s0 (outs @ finished es) (drain cb args es s)"
proof (induction es arbitrary: outs s)
  case Nil
  then show ?case by simp
next
  case (Cons ev es)
  show ?case
  proof (cases ev)
    case (Yield ex)
    with Cons show ?thesis by simp
  next
    case (GenRaise e)
    with Cons show ?thesis by simp
  next
    case (Done fut)
    from Cons.IH [OF outputs_kept_callback [OF Cons.prems, where fut = fut and cb = cb and args = args]] Done
    have "outputs_kept s0 ((outs @ finished [Done fut]) @ finished es) (drain cb args (ev # es) s)"
      by simp
    moreover have "finished (ev # es) = finished [Done fut] @ finished es"
      using Done finished_append [of "[Done fut]" es] by simp
    ultimately show ?thesis by simp
  qed
qed

lemma explore_outputs:
  assumes "outputs_kept s0 outs s" "explore cb args i evs s = Inr (t, rest)"
  shows "\<exists>pre. evs = pre @ rest \<and> outputs_kept s0 (outs @ finished pre) t"
  using assms
proof (induction evs arbitrary: i s outs)
  case Nil
  then show ?case by simp
next
  case (Cons ev evs)
  show ?case
  proof (cases ev)
    case (Yield ex)
    obtain b s' where p: "process_path cb args i ex s = (b, s')"
      by (cases "process_path cb args i ex s")
    have k: "outputs_kept s0 outs s'"
      using process_path_outputs [of cb args i ex s] p
      by (intro outputs_kept_same [OF Cons.prems(1)]) simp_all
    show ?thesis
    proof (cases b)
      case True
      with Cons.prems Yield p have "t = s'" "rest = evs" by simp_all
      with k Yield have "ev # evs = [ev] @ rest \<and> outputs_kept s0 (outs @ finished [ev]) t"
        by simp
      then show ?thesis by blast
    next
      case False
      with Cons.prems Yield p have "explore cb args (i + 1) evs s' = Inr (t, rest)" by simp
      from Cons.IH [OF k this] obtain pre where
        "evs = pre @ rest" "outputs_kept s0 (outs @ finished pre) t" by blast
      with Yield have "ev # evs = (ev # pre) @ rest
          \<and> outputs_kept s0 (outs @ finished (ev # pre)) t" by simp
      then show ?thesis by blast
    qed
  next
    case (GenRaise e)
    with Cons.prems show ?thesis by simp
  next
    case (Done fut)
    with Cons.prems have
      "explore cb args i evs (snd (solve_end_to_end_callback cb args fut s)) = Inr (t, rest)"
      by simp
    from Cons.IH [OF outputs_kept_callback [OF Cons.prems(1), where fut = fut and cb = cb and args = args] this]
    obtain pre where
      pre: "evs = pre @ rest" "outputs_kept s0 ((outs @ finished [Done fut]) @ finished pre) t"
      by blast
    have "finished (ev # pre) = finished [Done fut] @ finished pre"
      using Done finished_append [of "[Done fut]" pre] by simp
    with pre Done have "ev # evs = (ev # pre) @ rest
          \<and> outputs_kept s0 (outs @ finished (ev # pre)) t" by simp
    then show ?thesis by blast
  qed
qed

lemma conclude_executor:
  "executor_is_shutdown (snd (conclude cb args funsig n s)) = executor_is_shutdown s"
  by (simp add: conclude_def Let_def)

text \<open>
  When a run returns, the callback of every future of the schedule has run: the outputs
  recorded are an initial part of the outputs that finished, and all of them when the
  executor was never shut down.
\<close>

lemma run_test_outputs:
  assumes "run_test cb args funsig evs = Returns (r, s)"
  shows "outputs_kept init_test_state (finished evs) s"
proof -
  from assms obtain t rest where
    ex: "explore cb args 0 evs init_test_state = Inr (t, rest)" and
    rs: "(r, s) = conclude cb args funsig (cur_path_id t + 1) (drain cb args rest t)"
    by (rule run_test_Returns)
  from explore_outputs [OF outputs_kept_refl ex] obtain pre where
    pre: "evs = pre @ rest" "outputs_kept init_test_state (finished pre) t" by auto
  from drain_outputs [OF pre(2), where cb = cb and args = args and es = rest] pre(1)
  have d: "outputs_kept init_test_state (finished evs) (drain cb args rest t)"
    by (simp add: finished_append)
  have s: "s = snd (conclude cb args funsig (cur_path_id t + 1) (drain cb args rest t))"
    using rs by (metis snd_conv)
  from d show ?thesis
  proof (rule outputs_kept_same)
    show "solver_outputs s = solver_outputs (drain cb args rest t)"
      by (simp add: s conclude_solver_outputs)
    show "executor_is_shutdown s = executor_is_shutdown (drain cb args rest t)"
      by (simp add: s conclude_executor)
  qed
qed

section \<open>What the callback records\<close>

lemma callback_shutdown_keeps:
  assumes "executor_is_shutdown s \<or> fut = Cancelled \<or> fut = Failed ShutdownError"
  shows "solver_outputs (snd (solve_end_to_end_callback cb args fut s)) = solver_outputs s
     \<and> valid_counterexamples (snd (solve_end_to_end_callback cb args fut s)) = valid_counterexamples s
     \<and> invalid_counterexamples (snd (solve_end_to_end_callback cb args fut s)) = invalid_counterexamples s
     \<and> unsat_cores (snd (solve_end_to_end_callback cb args fut s)) = unsat_cores s"
proof (cases fut)
  case Cancelled
  then show ?thesis by (simp add: callback_Cancelled)
next
  case (Failed e)
  then show ?thesis by (simp add: callback_Failed)
next
  case (Finished out)
  with assms have "executor_is_shutdown s" by simp
  with Finished show ?thesis by (simp add: callback_Finished_shutdown)
qed

lemma classify_cong:
  "solver_outputs s' = solver_outputs s \<Longrightarrow> stuck s' = stuck s \<Longrightarrow> normal s' = normal s
   \<Longrightarrow> classify s' = classify s"
  by (simp add: classify_def)

text \<open>
  C9. A callback that finds the pool shut down (the future failed with \<open>ShutdownError\<close>, or
  the executor's flag is set), or whose future was cancelled, records nothing: the solver
  outputs, the unsat cores and both counterexample lists stay as they were, and so does the
  verdict computed from them; in the three cases where it stops before the flag is read the
  whole state is unchanged. When solving raised any other error, the only change to the
  state is the log entry for that error, and the verdict is unchanged.
\<close>

theorem callback_ignores_shutdown_and_errors:
  "(executor_is_shutdown s \<or> fut = Cancelled \<or> fut = Failed ShutdownError \<longrightarrow>
      solver_outputs (snd (solve_end_to_end_callback cb args fut s)) = solver_outputs s
      \<and> unsat_cores (snd (solve_end_to_end_callback cb args fut s)) = unsat_cores s
      \<and> valid_counterexamples (snd (solve_end_to_end_callback cb args fut s))
          = valid_counterexamples s
      \<and> invalid_counterexamples (snd (solve_end_to_end_callback cb args fut s))
          = invalid_counterexamples s
      \<and> classify (snd (solve_end_to_end_callback cb args fut s)) = classify s)
   \<and> (fut = Cancelled \<or> fut = Failed ShutdownError \<or> (executor_is_shutdown s \<and> fut = Finished out)
        \<longrightarrow> snd (solve_end_to_end_callback cb args fut s) = s)
   \<and> (fut = Failed e \<and> e \<noteq> ShutdownError \<longrightarrow>
        snd (solve_end_to_end_callback cb args fut s) = s\<lparr>logged := logged s @ [SolvingException e]\<rparr>
        \<and> classify (snd (solve_end_to_end_callback cb args fut s)) = classify s)"
proof (intro conjI impI)
  assume a: "executor_is_shutdown s \<or> fut = Cancelled \<or> fut = Failed ShutdownError"
  note k = callback_shutdown_keeps [OF a, of cb args]
  from k show "solver_outputs (snd (solve_end_to_end_callback cb args fut s)) = solver_outputs s"
    by simp
  from k show "unsat_cores (snd (solve_end_to_end_callback cb args fut s)) = unsat_cores s"
    by simp
  from k show "valid_counterexamples (snd (solve_end_to_end_callback cb args fut s))
          = valid_counterexamples s" by simp
  from k show "invalid_counterexamples (snd (solve_end_to_end_callback cb args fut s))
          = invalid_counterexamples s" by simp
  from k callback_locals [of cb args fut s]
  show "classify (snd (solve_end_to_end_callback cb args fut s)) = classify s"
    by (intro classify_cong) simp_all
next
  assume "fut = Cancelled \<or> fut = Failed ShutdownError \<or> (executor_is_shutdown s \<and> fut = Finished out)"
  then show "snd (solve_end_to_end_callback cb args fut s) = s"
    by (auto simp: callback_Cancelled callback_Failed callback_Finished_shutdown)
next
  assume "fut = Failed e \<and> e \<noteq> ShutdownError"
  then show "snd (solve_end_to_end_callback cb args fut s) = s\<lparr>logged := logged s @ [SolvingException e]\<rparr>"
    by (simp add: callback_Failed)
next
  assume "fut = Failed e \<and> e \<noteq> ShutdownError"
  then show "classify (snd (solve_end_to_end_callback cb args fut s)) = classify s"
    by (simp add: callback_Failed classify_def)
qed

theorem callback_ignores_shutdown_and_errors_witness:
  "snd (solve_end_to_end_callback example_collab example_args (Finished example_sat_output)
          (init_test_state\<lparr>executor_is_shutdown := True\<rparr>))
     = init_test_state\<lparr>executor_is_shutdown := True\<rparr>
   \<and> solver_outputs (snd (solve_end_to_end_callback example_collab example_args
          (Finished example_sat_output) (init_test_state\<lparr>executor_is_shutdown := True\<rparr>))) = []
   \<and> snd (solve_end_to_end_callback example_collab example_args (Failed (OtherException 1))
          init_test_state)
     = init_test_state\<lparr>logged := [SolvingException (OtherException 1)]\<rparr>"
  using callback_ignores_shutdown_and_errors
      [where s = "init_test_state\<lparr>executor_is_shutdown := True\<rparr>"
         and fut = "Finished example_sat_output" and out = example_sat_output
         and cb = example_collab and args = example_args]
    callback_ignores_shutdown_and_errors
      [where s = init_test_state and fut = "Failed (OtherException 1)"
         and e = "OtherException 1" and cb = example_collab and args = example_args]
  by (simp add: init_test_state_def)

section \<open>Stuck paths\<close>

lemma process_path_stuck:
  assumes "\<not> executor_is_shutdown s" "\<not> is_panic_of cb ex" "\<not> is_global_fail_set (context' ex)"
    "is_stuck (context' ex)"
  shows "submitted_futures (snd (process_path cb args pid ex s)) = submitted_futures s"
    and "actions (snd (process_path cb args pid ex s))
           = actions s @ [SolveLowLevel pid (to_smt2 cb ex)]"
    and "stuck (snd (process_path cb args pid ex s))
           = (if result (solve_low_level cb pid (to_smt2 cb ex)) \<noteq> unsat
              then stuck s @ [(pid, ex, the (stuck_reason (context' ex)))] else stuck s)"
  using assms by (simp_all add: process_path_def Let_def)

text \<open>
  C8 (as amended). A path whose call context is stuck and which is not a potential
  assertion violation (no panic found, fail flag not set) is never handed to the worker
  pool: the list of submitted futures is unchanged and no \<open>submit\<close> for its identifier is
  added. If the solver executor is not shut down when the path is pulled, exactly one
  blocking \<open>solve_low_level\<close> of the path's query is made, and the path is appended to
  \<open>stuck\<close> exactly when the result of that solve is not \<open>unsat\<close>. If the solver executor is
  shut down when the path is pulled, the loop leaves at that path: the path has received
  its identifier, which the total of \<open>num_paths\<close> counts, but nothing is solved and nothing
  is recorded as stuck.
\<close>

theorem stuck_path_solved_synchronously:
  assumes "\<not> is_panic_of cb ex" "\<not> is_global_fail_set (context' ex)" "is_stuck (context' ex)"
  shows "submitted_futures (snd (process_path cb args pid ex s)) = submitted_futures s
     \<and> (\<forall>q. Submit pid q \<in> set (actions (snd (process_path cb args pid ex s)))
              \<longrightarrow> Submit pid q \<in> set (actions s))
     \<and> (\<not> executor_is_shutdown s \<longrightarrow>
          actions (snd (process_path cb args pid ex s))
            = actions s @ [SolveLowLevel pid (to_smt2 cb ex)]
          \<and> stuck (snd (process_path cb args pid ex s))
            = (if result (solve_low_level cb pid (to_smt2 cb ex)) \<noteq> unsat
               then stuck s @ [(pid, ex, the (stuck_reason (context' ex)))] else stuck s))
     \<and> (executor_is_shutdown s \<longrightarrow>
          actions (snd (process_path cb args pid ex s)) = actions s
          \<and> stuck (snd (process_path cb args pid ex s)) = stuck s
          \<and> fst (process_path cb args pid ex s)
          \<and> cur_path_id (snd (process_path cb args pid ex s)) = pid)"
proof (cases "executor_is_shutdown s")
  case True
  then show ?thesis by (simp add: process_path_shutdown)
next
  case False
  note p = process_path_stuck [OF False assms, of args pid]
  from False p show ?thesis by simp
qed

text \<open>
  A run with early exit in which a stuck path is pulled after a valid counterexample has
  shut the solver executor down. The path is the second of two counted paths; a blocking
  solve of its query would not answer \<open>unsat\<close>; yet no solve is made and no stuck path is
  recorded.
\<close>

theorem stuck_path_after_shutdown_counterexample:
  "run_test example_collab example_args ''check_f()''
      [Yield (example_exec None None 7), Done (Finished example_sat_output),
       Yield (example_exec None (Some ''reason'') 5)]
     = Returns (\<lparr> name = ''check_f()'', exitcode = 1, num_models = Some 1,
                   models = Some [\<lparr> is_valid = True, assignment = 1 \<rparr>],
                   num_paths = Some (2, 0, 0), num_bounded_loops = Some 0 \<rparr>,
                init_test_state\<lparr>
                  solver_outputs := [example_sat_output],
                  valid_counterexamples := [\<lparr> is_valid = True, assignment = 1 \<rparr>],
                  call_sequences := [0 \<mapsto> ''''],
                  executor_is_shutdown := True,
                  potential := 1,
                  submitted_futures := [0],
                  cur_path_id := 1,
                  actions := [Submit 0 7, ExecutorShutdown False, ThreadPoolShutdown True]\<rparr>)
   \<and> is_stuck (context' (example_exec None (Some ''reason'') 5))
   \<and> \<not> is_panic_of example_collab (example_exec None (Some ''reason'') 5)
   \<and> \<not> is_global_fail_set (context' (example_exec None (Some ''reason'') 5))
   \<and> result (solve_low_level example_collab 1
               (to_smt2 example_collab (example_exec None (Some ''reason'') 5))) = unknown
   \<and> stuck init_test_state = []"
  by (simp add: run_test_def example_collab_def example_args_def example_exec_def
      example_sat_output_def solve_end_to_end_callback_def callback_tail_def
      init_test_state_def process_path_def is_stuck_def classify_def Counter_def conclude_def
      Let_def)

theorem stuck_path_solved_synchronously_witness:
  "submitted_futures (snd (process_path example_collab example_args 0
        (example_exec None (Some ''reason'') 5) init_test_state)) = []
   \<and> actions (snd (process_path example_collab example_args 0
        (example_exec None (Some ''reason'') 5) init_test_state)) = [SolveLowLevel 0 5]
   \<and> stuck (snd (process_path example_collab example_args 0
        (example_exec None (Some ''reason'') 5) init_test_state))
       = [(0, example_exec None (Some ''reason'') 5, ''reason'')]
   \<and> cur_path_id (snd (process_path example_collab example_args 1
        (example_exec None (Some ''reason'') 5)
        (init_test_state\<lparr>executor_is_shutdown := True\<rparr>))) = 1"
  using stuck_path_solved_synchronously
      [where cb = example_collab and args = example_args and pid = 0
         and ex = "example_exec None (Some ''reason'') 5" and s = init_test_state]
    stuck_path_solved_synchronously
      [where cb = example_collab and args = example_args and pid = 1
         and ex = "example_exec None (Some ''reason'') 5"
         and s = "init_test_state\<lparr>executor_is_shutdown := True\<rparr>"]
  by (simp add: example_collab_def example_exec_def init_test_state_def is_stuck_def)

section \<open>The number of paths\<close>

text \<open>
  C10 (as amended). \<open>path_id\<close> starts at 0, and after the loop it is the identifier of
  the last state pulled from the generator: one less than the number of states pulled, or
  still 0 when none was pulled. When \<open>run_test\<close> returns and \<open>minimal_json_output\<close> is off,
  \<open>num_paths\<close> holds that identifier plus one, the number of examined paths counted as
  normal and the number recorded as stuck; so when the generator yields no state at all,
  \<open>num_paths\<close> is (1, 0, 0). When \<open>minimal_json_output\<close> is on, \<open>num_paths\<close> is \<open>None\<close>.
\<close>

theorem num_paths_counts_last_path_id:
  assumes "run_test cb args funsig evs = Returns (r, s)"
  shows "cur_path_id init_test_state = 0
     \<and> cur_path_id s =
          (if pulled cb args 0 evs init_test_state = [] then 0
           else length (pulled cb args 0 evs init_test_state) - 1)
     \<and> (\<not> minimal_json_output args \<longrightarrow>
          num_paths r =
            Some (cur_path_id s + 1,
                  length (filter (\<lambda>p. counted_as_normal cb (snd p))
                            (examined cb args 0 evs init_test_state)),
                  length (filter (recorded_as_stuck cb)
                            (examined cb args 0 evs init_test_state))))
     \<and> (minimal_json_output args \<longrightarrow> num_paths r = None)
     \<and> (\<not> minimal_json_output args \<and> (\<forall>ex. Yield ex \<notin> set evs) \<longrightarrow>
          num_paths r = Some (1, 0, 0))"
proof -
  from assms obtain t rest d where
    ex: "explore cb args 0 evs init_test_state = Inr (t, rest)" and
    r: "r = fst (conclude cb args funsig (cur_path_id t + 1) d)" and
    s: "cur_path_id s = cur_path_id t" and
    d: "normal d = normal t" "stuck d = stuck t"
    by (rule run_test_parts)
  let ?pulled = "pulled cb args 0 evs init_test_state"
  let ?examined = "examined cb args 0 evs init_test_state"
  have z: "cur_path_id init_test_state = 0" "normal init_test_state = 0"
    "stuck init_test_state = []"
    by (simp_all add: init_test_state_def)
  have id: "cur_path_id s = (if ?pulled = [] then 0 else length ?pulled - 1)"
    using explore_pulled [OF ex] s z by simp
  have n: "normal t = length (filter (\<lambda>p. counted_as_normal cb (snd p)) ?examined)"
    and k: "length (stuck t) = length (filter (recorded_as_stuck cb) ?examined)"
    using explore_examined [OF ex] z by simp_all
  have on: "num_paths r = None" if "minimal_json_output args"
    using that by (simp add: r conclude_num_paths)
  have off: "num_paths r =
            Some (cur_path_id s + 1,
                  length (filter (\<lambda>p. counted_as_normal cb (snd p)) ?examined),
                  length (filter (recorded_as_stuck cb) ?examined))"
    if "\<not> minimal_json_output args"
    using that d n k s by (simp add: r conclude_num_paths)
  have none: "num_paths r = Some (1, 0, 0)"
    if "\<not> minimal_json_output args \<and> (\<forall>ex. Yield ex \<notin> set evs)"
  proof -
    from that have "?pulled = []" "?examined = []"
      by (simp_all add: pulled_no_yield examined_no_yield)
    with off id that show ?thesis by simp
  qed
  from z(1) id on off none show ?thesis by blast
qed

text \<open>
  With \<open>minimal_json_output\<close> on, the result is built from the name, the exit code and the
  number of models only, and \<open>num_paths\<close> keeps its default \<open>None\<close>: the run on a generator
  that yields nothing reports no path count.
\<close>

theorem num_paths_absent_counterexample:
  "run_test example_collab (example_args\<lparr>minimal_json_output := True\<rparr>) ''check_f()'' []
     = Returns (\<lparr> name = ''check_f()'', exitcode = 4, num_models = Some 0, models = None,
                   num_paths = None, num_bounded_loops = None \<rparr>,
                init_test_state\<lparr>logged := [RevertAll], actions := [ThreadPoolShutdown True]\<rparr>)"
  by (simp add: run_test_def example_collab_def example_args_def
      init_test_state_def classify_def Counter_def conclude_def Let_def)

lemma run_no_paths:
  "run_test example_collab example_args ''check_f()'' []
     = Returns (\<lparr> name = ''check_f()'', exitcode = 4, num_models = Some 0, models = Some [],
                   num_paths = Some (1, 0, 0), num_bounded_loops = Some 0 \<rparr>,
                init_test_state\<lparr>logged := [RevertAll], actions := [ThreadPoolShutdown True]\<rparr>)"
  by (simp add: run_test_def example_collab_def example_args_def
      init_test_state_def classify_def Counter_def conclude_def Let_def)

lemma run_no_paths_minimal:
  "run_test example_collab (example_args\<lparr>minimal_json_output := True\<rparr>) ''check_f()'' []
     = Returns (\<lparr> name = ''check_f()'', exitcode = 4, num_models = Some 0, models = None,
                   num_paths = None, num_bounded_loops = None \<rparr>,
                init_test_state\<lparr>logged := [RevertAll], actions := [ThreadPoolShutdown True]\<rparr>)"
  by (simp add: run_test_def example_collab_def example_args_def
      init_test_state_def classify_def Counter_def conclude_def Let_def)

theorem num_paths_counts_last_path_id_witness:
  "run_test example_collab example_args ''check_f()'' []
     = Returns (\<lparr> name = ''check_f()'', exitcode = 4, num_models = Some 0, models = Some [],
                   num_paths = Some (1, 0, 0), num_bounded_loops = Some 0 \<rparr>,
                init_test_state\<lparr>logged := [RevertAll], actions := [ThreadPoolShutdown True]\<rparr>)
   \<and> \<not> minimal_json_output example_args
   \<and> pulled example_collab example_args 0 [] init_test_state = []
   \<and> minimal_json_output (example_args\<lparr>minimal_json_output := True\<rparr>)
   \<and> cur_path_id (init_test_state\<lparr>logged := [RevertAll],
                                      actions := [ThreadPoolShutdown True]\<rparr>) + 1 = 1"
  using num_paths_counts_last_path_id [OF run_no_paths]
    num_paths_counts_last_path_id [OF run_no_paths_minimal] run_no_paths
  by (simp add: example_args_def init_test_state_def)

section \<open>The verdict of a test\<close>

text \<open>
  C1 (as amended). Whenever \<open>run_test\<close> returns a result \<open>r\<close>, leaving the state \<open>s\<close>, the
  exit code of \<open>r\<close> follows this priority order. Some collected solver output is \<open>sat\<close>:
  COUNTEREXAMPLE. Else some collected output is \<open>unknown\<close>: TIMEOUT. Else some path that the
  loop body looked at was recorded as stuck (stuck, no potential violation, and the blocking
  solve did not answer \<open>unsat\<close>): STUCK. Else no path that the loop body looked at was
  counted as normal: REVERT_ALL, where a path is counted as normal only if it is no
  potential violation, not stuck and without error output. Else PASS. The collected outputs
  are an initial part of the outputs of the futures that finished, and all of them when the
  solver executor was not shut down. The exit codes are 0 to 5 in the order PASS,
  COUNTEREXAMPLE, TIMEOUT, STUCK, REVERT_ALL, EXCEPTION.
\<close>

theorem run_test_verdict:
  assumes "run_test cb args funsig evs = Returns (r, s)"
  shows "exitcode r = exit_value
       (if (\<exists>m \<in> set (solver_outputs s). result m = sat) then COUNTEREXAMPLE
        else if (\<exists>m \<in> set (solver_outputs s). result m = unknown) then TIMEOUT
        else if (\<exists>p \<in> set (examined cb args 0 evs init_test_state). recorded_as_stuck cb p)
          then STUCK
        else if (\<forall>p \<in> set (examined cb args 0 evs init_test_state).
                   \<not> counted_as_normal cb (snd p))
          then REVERT_ALL
        else PASS)
     \<and> (\<exists>k. solver_outputs s = take k (finished evs))
     \<and> (\<not> executor_is_shutdown s \<longrightarrow> solver_outputs s = finished evs)
     \<and> map exit_value [PASS, COUNTEREXAMPLE, TIMEOUT, STUCK, REVERT_ALL, EXCEPTION]
         = [0, 1, 2, 3, 4, 5]"
proof -
  from assms obtain t rest d where
    ex: "explore cb args 0 evs init_test_state = Inr (t, rest)" and
    r: "r = fst (conclude cb args funsig (cur_path_id t + 1) d)" and
    s: "s = snd (conclude cb args funsig (cur_path_id t + 1) d)" and
    st: "normal s = normal t" "stuck s = stuck t"
    by (rule run_test_parts)
  from run_test_outputs [OF assms]
  have outs: "\<exists>k. solver_outputs s = take k (finished evs)"
    "\<not> executor_is_shutdown s \<longrightarrow> solver_outputs s = finished evs"
    by (simp_all add: outputs_kept_def init_test_state_def)
  let ?examined = "examined cb args 0 evs init_test_state"
  have "exitcode r = exit_value (classify s)"
    by (simp add: r s conclude_exitcode classify_conclude)
  moreover have "normal s = length (filter (\<lambda>p. counted_as_normal cb (snd p)) ?examined)"
    and "stuck s = map (\<lambda>p. (fst p, snd p, the (stuck_reason (context' (snd p)))))
                     (filter (recorded_as_stuck cb) ?examined)"
    using explore_examined [OF ex] st by (simp_all add: init_test_state_def)
  then have "normal s = 0 \<longleftrightarrow> (\<forall>p \<in> set ?examined. \<not> counted_as_normal cb (snd p))"
    and "stuck s \<noteq> [] \<longleftrightarrow> (\<exists>p \<in> set ?examined. recorded_as_stuck cb p)"
    by (auto simp: filter_empty_conv)
  ultimately show ?thesis using outs by (simp add: classify_priority)
qed

text \<open>
  One state is yielded; it neither reverted nor got stuck, and the fail flag is set in one
  of its subcalls. The solver finds its path infeasible. The run ends with REVERT_ALL: the
  state is a potential violation, so it was not counted as normal.
\<close>

theorem revert_all_with_live_path_counterexample:
  "run_test example_collab example_args ''check_f()''
      [Yield example_fail_exec, Done (Finished example_unsat_output)]
     = Returns (\<lparr> name = ''check_f()'', exitcode = 4, num_models = Some 0, models = Some [],
                   num_paths = Some (1, 0, 0), num_bounded_loops = Some 0 \<rparr>,
                init_test_state\<lparr>
                  solver_outputs := [example_unsat_output],
                  call_sequences := [0 \<mapsto> ''''],
                  potential := 1,
                  submitted_futures := [0],
                  logged := [RevertAll],
                  actions := [Submit 0 0, ThreadPoolShutdown True]\<rparr>)
   \<and> output_error (context' example_fail_exec) = None
   \<and> \<not> is_stuck (context' example_fail_exec)
   \<and> exit_value REVERT_ALL = 4"
  by (simp add: run_test_def example_collab_def example_args_def example_fail_exec_def
      example_unsat_output_def solve_end_to_end_callback_def callback_tail_def
      init_test_state_def process_path_def is_stuck_def classify_def Counter_def conclude_def
      Let_def)

lemma run_one_normal_path:
  "run_test example_collab example_args ''check_f()'' [Yield (example_exec None None 0)]
     = Returns (\<lparr> name = ''check_f()'', exitcode = 0, num_models = Some 0, models = Some [],
                   num_paths = Some (1, 1, 0), num_bounded_loops = Some 0 \<rparr>,
                init_test_state\<lparr>normal := 1, actions := [ThreadPoolShutdown True]\<rparr>)"
  by (simp add: run_test_def example_collab_def example_args_def example_exec_def
      init_test_state_def process_path_def is_stuck_def classify_def Counter_def conclude_def
      Let_def)

theorem run_test_verdict_witness:
  "run_test example_collab example_args ''check_f()'' [Yield (example_exec None None 0)]
     = Returns (\<lparr> name = ''check_f()'', exitcode = 0, num_models = Some 0, models = Some [],
                   num_paths = Some (1, 1, 0), num_bounded_loops = Some 0 \<rparr>,
                init_test_state\<lparr>normal := 1, actions := [ThreadPoolShutdown True]\<rparr>)
   \<and> examined example_collab example_args 0 [Yield (example_exec None None 0)] init_test_state
       = [(0, example_exec None None 0)]
   \<and> counted_as_normal example_collab (example_exec None None 0)
   \<and> \<not> executor_is_shutdown (init_test_state\<lparr>normal := 1,
                                                     actions := [ThreadPoolShutdown True]\<rparr>)
   \<and> exit_value PASS = 0"
  using run_test_verdict [OF run_one_normal_path] run_one_normal_path
  by (simp add: init_test_state_def counted_as_normal_def potential_violation_def
      example_collab_def example_exec_def is_stuck_def process_path_def Let_def)

section \<open>Early exit and the final drain\<close>

lemma callback_actions:
  "(valid_counterexamples (snd (solve_end_to_end_callback cb args fut s)) \<noteq> valid_counterexamples s
      \<and> early_exit args
    \<longrightarrow> actions (snd (solve_end_to_end_callback cb args fut s)) = actions s @ [ExecutorShutdown False]
        \<and> executor_is_shutdown (snd (solve_end_to_end_callback cb args fut s)))
   \<and> (valid_counterexamples (snd (solve_end_to_end_callback cb args fut s)) = valid_counterexamples s
      \<or> \<not> early_exit args
    \<longrightarrow> actions (snd (solve_end_to_end_callback cb args fut s)) = actions s)"
proof (cases fut)
  case Cancelled
  then show ?thesis by (simp add: callback_Cancelled)
next
  case (Failed e)
  then show ?thesis by (simp add: callback_Failed)
next
  case (Finished out)
  then show ?thesis
    by (simp add: solve_end_to_end_callback_def Let_def callback_tail_snd
        split: option.splits)
qed

text \<open>
  Neither the callback nor the loop body shuts the thread pool down, and neither shuts the
  solver executor down with \<open>wait=True\<close>.
\<close>

lemma callback_no_blocking_shutdown:
  assumes "a = ThreadPoolShutdown w \<or> a = ExecutorShutdown True"
  shows "a \<in> set (actions (snd (solve_end_to_end_callback cb args fut s)))
     \<longleftrightarrow> a \<in> set (actions s)"
  using callback_actions [of cb args fut s] assms by (cases "early_exit args") auto

lemma process_path_no_blocking_shutdown:
  assumes "a = ThreadPoolShutdown w \<or> a = ExecutorShutdown True"
  shows "a \<in> set (actions (snd (process_path cb args pid ex s))) \<longleftrightarrow> a \<in> set (actions s)"
  using assms by (auto simp: process_path_def Let_def)

lemma drain_no_blocking_shutdown:
  assumes "a = ThreadPoolShutdown w \<or> a = ExecutorShutdown True"
  shows "a \<in> set (actions (drain cb args es s)) \<longleftrightarrow> a \<in> set (actions s)"
proof (induction es arbitrary: s)
  case Nil
  then show ?case by simp
next
  case (Cons ev es)
  then show ?case using callback_no_blocking_shutdown [OF assms] by (cases ev) simp_all
qed

lemma explore_no_blocking_shutdown:
  assumes "a = ThreadPoolShutdown w \<or> a = ExecutorShutdown True"
    and "explore cb args i evs s = Inr (t, rest)"
  shows "a \<in> set (actions t) \<longleftrightarrow> a \<in> set (actions s)"
  using assms(2)
proof (induction evs arbitrary: s i)
  case Nil
  then show ?case by simp
next
  case (Cons ev evs)
  show ?case
  proof (cases ev)
    case (Yield ex)
    obtain b s' where p: "process_path cb args i ex s = (b, s')"
      by (cases "process_path cb args i ex s")
    have s': "a \<in> set (actions s') \<longleftrightarrow> a \<in> set (actions s)"
      using process_path_no_blocking_shutdown [OF assms(1), of cb args i ex s] p by simp
    show ?thesis
    proof (cases b)
      case True
      with Cons.prems Yield p have "t = s'" by simp
      with s' show ?thesis by simp
    next
      case False
      with Cons.prems Yield p have "explore cb args (i + 1) evs s' = Inr (t, rest)" by simp
      from Cons.IH [OF this] s' show ?thesis by simp
    qed
  next
    case (GenRaise e)
    with Cons.prems show ?thesis by simp
  next
    case (Done fut)
    with Cons.prems have
      "explore cb args i evs (snd (solve_end_to_end_callback cb args fut s)) = Inr (t, rest)"
      by simp
    from Cons.IH [OF this] callback_no_blocking_shutdown [OF assms(1), of cb args fut s]
    show ?thesis by simp
  qed
qed

lemma conclude_actions:
  "actions (snd (conclude cb args funsig n s)) = actions s @ [ThreadPoolShutdown True]"
  by (simp add: conclude_def Let_def)

text \<open>
  C4 (as amended). When the callback records a valid counterexample and \<open>early_exit\<close> is on,
  it calls \<open>shutdown(wait=False)\<close> on the test's solver executor
  (\<open>ctx.solving_ctx.executor\<close>), whose shutdown flag is set from then on. Every run of
  \<open>run_test\<close> that returns, whether or not the early exit happened, makes exactly one
  shutdown of the test's thread pool (\<open>ctx.thread_pool\<close>), with \<open>wait=True\<close> and as its last
  call, and never shuts the solver executor down with \<open>wait=True\<close>. By then the callback of
  every future that finished has run, and the exit code is the classification of the state
  they leave: the outputs recorded are an initial part of the outputs of the futures that
  finished, and all of them when the solver executor was not shut down.
\<close>

theorem early_exit_and_final_drain:
  "(valid_counterexamples (snd (solve_end_to_end_callback cb args fut s0)) \<noteq> valid_counterexamples s0
      \<and> early_exit args
    \<longrightarrow> actions (snd (solve_end_to_end_callback cb args fut s0))
          = actions s0 @ [ExecutorShutdown False]
        \<and> executor_is_shutdown (snd (solve_end_to_end_callback cb args fut s0)))
   \<and> (run_test cb args funsig evs = Returns (r, s)
    \<longrightarrow> (\<exists>before. actions s = before @ [ThreadPoolShutdown True]
                  \<and> (\<forall>w. ThreadPoolShutdown w \<notin> set before))
        \<and> ExecutorShutdown True \<notin> set (actions s)
        \<and> exitcode r = exit_value (classify s)
        \<and> (\<exists>k. solver_outputs s = take k (finished evs))
        \<and> (\<not> executor_is_shutdown s \<longrightarrow> solver_outputs s = finished evs))"
proof (rule conjI; rule impI)
  assume "valid_counterexamples (snd (solve_end_to_end_callback cb args fut s0)) \<noteq> valid_counterexamples s0
      \<and> early_exit args"
  with callback_actions [of cb args fut s0]
  show "actions (snd (solve_end_to_end_callback cb args fut s0)) = actions s0 @ [ExecutorShutdown False]
        \<and> executor_is_shutdown (snd (solve_end_to_end_callback cb args fut s0))"
    by simp
next
  assume ret: "run_test cb args funsig evs = Returns (r, s)"
  then obtain t rest where
    ex: "explore cb args 0 evs init_test_state = Inr (t, rest)" and
    rs: "(r, s) = conclude cb args funsig (cur_path_id t + 1) (drain cb args rest t)"
    by (rule run_test_Returns)
  let ?d = "drain cb args rest t"
  have r: "r = fst (conclude cb args funsig (cur_path_id t + 1) ?d)"
    and s: "s = snd (conclude cb args funsig (cur_path_id t + 1) ?d)"
    using rs by (metis fst_conv, metis snd_conv)
  have no: "a \<notin> set (actions ?d)" if "a = ThreadPoolShutdown w \<or> a = ExecutorShutdown True"
    for a w
    using explore_no_blocking_shutdown [OF that ex]
      drain_no_blocking_shutdown [OF that, of cb args rest t] that
    by (auto simp: init_test_state_def)
  have a: "actions s = actions ?d @ [ThreadPoolShutdown True]"
    by (simp add: s conclude_actions)
  have 1: "\<exists>before. actions s = before @ [ThreadPoolShutdown True]
                  \<and> (\<forall>w. ThreadPoolShutdown w \<notin> set before)"
    using a no by blast
  have 2: "ExecutorShutdown True \<notin> set (actions s)"
    using a no [of "ExecutorShutdown True"] by simp
  have 3: "exitcode r = exit_value (classify s)"
    by (simp add: r s conclude_exitcode classify_conclude)
  from run_test_outputs [OF ret]
  have 4: "\<exists>k. solver_outputs s = take k (finished evs)"
    and 5: "\<not> executor_is_shutdown s \<longrightarrow> solver_outputs s = finished evs"
    by (simp_all add: outputs_kept_def init_test_state_def)
  from 1 2 3 4 5
  show "(\<exists>before. actions s = before @ [ThreadPoolShutdown True]
                  \<and> (\<forall>w. ThreadPoolShutdown w \<notin> set before))
        \<and> ExecutorShutdown True \<notin> set (actions s)
        \<and> exitcode r = exit_value (classify s)
        \<and> (\<exists>k. solver_outputs s = take k (finished evs))
        \<and> (\<not> executor_is_shutdown s \<longrightarrow> solver_outputs s = finished evs)"
    by blast
qed

text \<open>
  A run in which the early exit happens. The solver executor is shut down without waiting
  and never with \<open>wait=True\<close>; the thread pool is shut down with \<open>wait=True\<close> and never
  without waiting. No one pool receives both calls.
\<close>

theorem two_pools_counterexample:
  "run_test example_collab example_args ''check_f()''
      [Yield (example_exec None None 7), Done (Finished example_sat_output)]
     = Returns (\<lparr> name = ''check_f()'', exitcode = 1, num_models = Some 1,
                   models = Some [\<lparr> is_valid = True, assignment = 1 \<rparr>],
                   num_paths = Some (1, 0, 0), num_bounded_loops = Some 0 \<rparr>,
                init_test_state\<lparr>
                  solver_outputs := [example_sat_output],
                  valid_counterexamples := [\<lparr> is_valid = True, assignment = 1 \<rparr>],
                  call_sequences := [0 \<mapsto> ''''],
                  executor_is_shutdown := True,
                  potential := 1,
                  submitted_futures := [0],
                  actions := [Submit 0 7, ExecutorShutdown False, ThreadPoolShutdown True]\<rparr>)
   \<and> ExecutorShutdown True \<notin> set [Submit 0 7, ExecutorShutdown False, ThreadPoolShutdown True]
   \<and> ThreadPoolShutdown False \<notin> set [Submit 0 7, ExecutorShutdown False, ThreadPoolShutdown True]"
  by (simp add: run_test_def example_collab_def example_args_def example_exec_def
      example_sat_output_def solve_end_to_end_callback_def callback_tail_def
      init_test_state_def process_path_def is_stuck_def classify_def Counter_def conclude_def
      Let_def)

lemma run_early_exit:
  "run_test example_collab example_args ''check_f()''
      [Yield (example_exec None None 7), Done (Finished example_sat_output)]
     = Returns (\<lparr> name = ''check_f()'', exitcode = 1, num_models = Some 1,
                   models = Some [\<lparr> is_valid = True, assignment = 1 \<rparr>],
                   num_paths = Some (1, 0, 0), num_bounded_loops = Some 0 \<rparr>,
                init_test_state\<lparr>
                  solver_outputs := [example_sat_output],
                  valid_counterexamples := [\<lparr> is_valid = True, assignment = 1 \<rparr>],
                  call_sequences := [0 \<mapsto> ''''],
                  executor_is_shutdown := True,
                  potential := 1,
                  submitted_futures := [0],
                  actions := [Submit 0 7, ExecutorShutdown False, ThreadPoolShutdown True]\<rparr>)"
  by (simp add: run_test_def example_collab_def example_args_def example_exec_def
      example_sat_output_def solve_end_to_end_callback_def callback_tail_def
      init_test_state_def process_path_def is_stuck_def classify_def Counter_def conclude_def
      Let_def)

text \<open>
  A run without early exit that leaves the loop at the \<open>--width\<close> limit while a future is
  still outstanding: its output is recorded before the verdict.
\<close>

lemma run_width_limit:
  "run_test example_collab (example_args\<lparr>early_exit := False, width := 1\<rparr>) ''check_f()''
      [Yield (example_exec None None 7), Yield (example_exec None None 0),
       Done (Finished example_sat_output)]
     = Returns (\<lparr> name = ''check_f()'', exitcode = 1, num_models = Some 1,
                   models = Some [\<lparr> is_valid = True, assignment = 1 \<rparr>],
                   num_paths = Some (2, 1, 0), num_bounded_loops = Some 0 \<rparr>,
                init_test_state\<lparr>
                  solver_outputs := [example_sat_output],
                  valid_counterexamples := [\<lparr> is_valid = True, assignment = 1 \<rparr>],
                  call_sequences := [0 \<mapsto> ''''],
                  normal := 1,
                  potential := 1,
                  submitted_futures := [0],
                  cur_path_id := 1,
                  logged := [IncompleteExecution 1],
                  actions := [Submit 0 7, ThreadPoolShutdown True]\<rparr>)"
  by (simp add: run_test_def example_collab_def example_args_def example_exec_def
      example_sat_output_def solve_end_to_end_callback_def callback_tail_def
      init_test_state_def process_path_def is_stuck_def classify_def Counter_def conclude_def
      Let_def)

theorem early_exit_and_final_drain_witness:
  "actions (snd (solve_end_to_end_callback example_collab example_args
       (Finished example_sat_output) init_test_state)) = [ExecutorShutdown False]
   \<and> run_test example_collab example_args ''check_f()''
      [Yield (example_exec None None 7), Done (Finished example_sat_output)]
     = Returns (\<lparr> name = ''check_f()'', exitcode = 1, num_models = Some 1,
                   models = Some [\<lparr> is_valid = True, assignment = 1 \<rparr>],
                   num_paths = Some (1, 0, 0), num_bounded_loops = Some 0 \<rparr>,
                init_test_state\<lparr>
                  solver_outputs := [example_sat_output],
                  valid_counterexamples := [\<lparr> is_valid = True, assignment = 1 \<rparr>],
                  call_sequences := [0 \<mapsto> ''''],
                  executor_is_shutdown := True,
                  potential := 1,
                  submitted_futures := [0],
                  actions := [Submit 0 7, ExecutorShutdown False, ThreadPoolShutdown True]\<rparr>)
   \<and> finished [Yield (example_exec None None 7), Yield (example_exec None None 0),
                 Done (Finished example_sat_output)] = [example_sat_output]
   \<and> \<not> executor_is_shutdown (init_test_state\<lparr>
                  solver_outputs := [example_sat_output],
                  valid_counterexamples := [\<lparr> is_valid = True, assignment = 1 \<rparr>],
                  call_sequences := [0 \<mapsto> ''''],
                  normal := 1,
                  potential := 1,
                  submitted_futures := [0],
                  cur_path_id := 1,
                  logged := [IncompleteExecution 1],
                  actions := [Submit 0 7, ThreadPoolShutdown True]\<rparr>)"
  using early_exit_and_final_drain
      [where cb = example_collab and args = example_args and fut = "Finished example_sat_output"
         and ?s0.0 = init_test_state and funsig = "''check_f()''"
         and evs = "[Yield (example_exec None None 7), Done (Finished example_sat_output)]"]
    early_exit_and_final_drain
      [where cb = example_collab and args = "example_args\<lparr>early_exit := False, width := 1\<rparr>"
         and fut = "Finished example_sat_output"
         and ?s0.0 = init_test_state and funsig = "''check_f()''"
         and evs = "[Yield (example_exec None None 7), Yield (example_exec None None 0),
                     Done (Finished example_sat_output)]"]
    run_early_exit run_width_limit
  by (simp add: example_collab_def example_args_def
      example_sat_output_def solve_end_to_end_callback_def callback_tail_def
      init_test_state_def Let_def)

section \<open>Failures inside run_target_contract\<close>

text \<open>
  Once some pass has bound \<open>solver\<close>, or when every pass gets as far as creating its solver,
  no failure of a function ends the enumeration.
\<close>

lemma run_functions_bound_solver:
  assumes "\<And>sg sel. (sg, sel) \<in> set fs \<Longrightarrow> stateMutability cj sg \<noteq> None"
  shows "raised (run_functions I ex a cname cj fs (Some old) acc) = raised acc"
  using assms
proof (induction fs arbitrary: old acc)
  case Nil
  then show ?case by simp
next
  case (Cons f fs)
  obtain sg sel where f: "f = (sg, sel)" by (cases f)
  from Cons.prems [of sg sel] f obtain m where m: "stateMutability cj sg = Some m" by auto
  have ih: "raised (run_functions I ex a cname cj fs (Some old') acc') = raised acc'"
    for old' acc'
    by (rule Cons.IH) (insert Cons.prems, auto)
  show ?case
    by (simp add: f m ih Let_def split: attempt.splits option.splits)
qed

lemma run_functions_solver_created:
  assumes "\<And>sg sel. (sg, sel) \<in> set fs \<Longrightarrow> stateMutability cj sg \<noteq> None"
    and "\<And>sg sel err. (sg, sel) \<in> set fs \<Longrightarrow>
           attempt_of I ex a (FunctionInfo cname (takeWhile (\<lambda>ch. ch \<noteq> CHR ''('') sg) sg sel)
             \<noteq> FailsEarly err"
  shows "raised (run_functions I ex a cname cj fs sv acc) = raised acc"
  using assms
proof (induction fs arbitrary: sv acc)
  case Nil
  then show ?case by simp
next
  case (Cons f fs)
  obtain sg sel where f: "f = (sg, sel)" by (cases f)
  from Cons.prems(1) [of sg sel] f obtain m where m: "stateMutability cj sg = Some m" by auto
  have ih: "raised (run_functions I ex a cname cj fs sv' acc') = raised acc'" for sv' acc'
    by (rule Cons.IH) (insert Cons.prems, auto)
  from Cons.prems(2) [of sg sel] f
  have ne: "attempt_of I ex a (FunctionInfo cname (takeWhile (\<lambda>ch. ch \<noteq> CHR ''('') sg) sg sel)
             \<noteq> FailsEarly err" for err by simp
  show ?case
    using ne by (simp add: f m ih Let_def split: attempt.splits option.splits)
qed

text \<open>
  C3. A failure in one function is meant to be logged and to skip that function only, with
  the function's solver released on every exit. The code misses one case: when
  the first state-changing function fails before \<open>solver = mk_solver(args)\<close> has bound the
  variable, the \<open>finally\<close> clause \<open>reset(solver)\<close> reads an unbound local. The failure of
  \<open>f()\<close> is logged, then \<open>UnboundLocalError\<close> leaves the generator, and the sibling \<open>g()\<close>,
  which would have run, is never enumerated.
\<close>

theorem first_function_failure_escapes:
  "run_target_contract example_interp example_target 1
     = \<lparr> yielded = [], resets = [], failures = [(''f()'', OtherException 1)],
         raised = Some UnboundLocalError \<rparr>"
  by (simp add: run_target_contract_def example_interp_def example_target_def
      example_json_def no_run_def)

text \<open>
  The same contract when the failure comes after the solver was created: the failure is
  logged, both solvers are reset, and \<open>g()\<close> runs.
\<close>

lemma late_failure_is_isolated:
  "run_target_contract example_interp_late example_target 1
     = \<lparr> yielded = [example_exec None None 1], resets = [1, 2],
         failures = [(''f()'', OtherException 1)], raised = None \<rparr>"
  by (simp add: run_target_contract_def example_interp_late_def example_interp_def
      example_target_def example_json_def no_run_def)

section \<open>The invariant of the frontier cache\<close>

lemma appended_refl:
  "frontier_states c depth = Some old \<Longrightarrow> appended depth pres c c []"
  by (auto simp: appended_def)

lemma appended_same_cache:
  assumes "frontier_states c depth = Some old" "frontier_states c' = frontier_states c"
    "visited c' = visited c"
  shows "appended depth pres c c' []"
  using assms by (auto simp: appended_def)

lemma appended_trans:
  assumes "appended depth pres c c' new" "appended depth pres' c' c'' new'"
  shows "appended depth (pres \<union> pres') c c'' (new @ new')"
proof -
  from assms(1) obtain old where
    o: "frontier_states c depth = Some old"
       "frontier_states c' = (frontier_states c)(depth \<mapsto> old @ new)"
    by (auto simp: appended_def)
  from assms(2) o obtain
    o': "frontier_states c'' = (frontier_states c')(depth \<mapsto> (old @ new) @ new')"
    by (auto simp: appended_def)
  have 1: "\<exists>old. frontier_states c depth = Some old
            \<and> frontier_states c'' = (frontier_states c)(depth \<mapsto> old @ new @ new')"
    using o o' by simp
  have 2: "visited c \<subseteq> visited c''"
    using assms by (auto simp: appended_def)
  have 3: "finite (visited c'') \<and> card (visited c'') = card (visited c) + length (new @ new')"
    if "finite (visited c)"
    using assms that by (auto simp: appended_def)
  have 4: "\<forall>s \<in> set (new @ new'). \<exists>p \<in> pres \<union> pres'. extends_state depth p s"
    using assms by (auto simp: appended_def)
  from 1 2 3 4 show ?thesis unfolding appended_def by blast
qed

lemma appended_entry:
  assumes "appended depth pres c c' new"
  obtains old where "frontier_states c depth = Some old"
    "frontier_states c' depth = Some (old @ new)"
  using assms by (auto simp: appended_def)

lemma visit_post_appended:
  assumes "frontier_states c depth = Some old" "visit_post I depth pre a post c = (r, c')"
  shows "appended depth {pre} c c' (case r of None \<Rightarrow> [] | Some s \<Rightarrow> [s])"
proof (cases "is_stuck (context' post) \<or> output_error (context' post) \<noteq> None
              \<or> get_state_id I (path_slice I post) \<in> visited c")
  case True
  with assms(2) have "r = None \<and> frontier_states c' = frontier_states c \<and> visited c' = visited c"
    by (auto simp: visit_post_def Let_def split: if_splits)
  with assms(1) show ?thesis by (simp add: appended_same_cache)
next
  case False
  let ?sl = "path_slice I post"
  let ?ts = "ZeroExt 192 (BitVec (timestamp_prefix depth @ uid_value I (uid_calls c)) 64)"
  let ?pl = "?sl\<lparr>call_sequence := call_sequence pre @ [context' post],
                   block_timestamp := ?ts,
                   path := path ?sl @ [Ge ?ts (block_timestamp pre)]\<rparr>"
  from False assms have r: "r = Some ?pl"
    and c': "c' = c\<lparr>visited := insert (get_state_id I ?sl) (visited c),
                     uid_calls := uid_calls c + 1,
                     frontier_states := (frontier_states c)(depth \<mapsto> old @ [?pl])\<rparr>"
    by (auto simp: visit_post_def Let_def timestamp_prefix_def)
  have e: "extends_state depth pre ?pl"
    by (simp add: extends_state_def)
  from False have "get_state_id I ?sl \<notin> visited c" by simp
  then show ?thesis
    using assms(1) e by (auto simp: appended_def r c')
qed


lemma visit_posts_appended:
  assumes "frontier_states c depth = Some old" "visit_posts I depth pre a posts n c = (n', c')"
  shows "\<exists>new. appended depth {pre} c c' new"
  using assms
proof (induction posts arbitrary: n c old)
  case Nil
  then show ?case by (fastforce intro: appended_refl)
next
  case (Cons post posts)
  show ?case
  proof (cases "n = 0")
    case True
    with Cons.prems show ?thesis by (fastforce intro: appended_refl)
  next
    case False
    obtain r c1 where v: "visit_post I depth pre a post c = (r, c1)"
      by (cases "visit_post I depth pre a post c")
    let ?new1 = "case r of None \<Rightarrow> [] | Some s \<Rightarrow> [s]"
    have a1: "appended depth {pre} c c1 ?new1"
      by (rule visit_post_appended [OF Cons.prems(1) v])
    then obtain old1 where o1: "frontier_states c1 depth = Some old1"
      by (auto elim: appended_entry)
    from Cons.prems(2) False v obtain m where
      "visit_posts I depth pre a posts m c1 = (n', c')"
      by (cases r) auto
    from Cons.IH [OF o1 this] obtain new2 where "appended depth {pre} c1 c' new2" ..
    with a1 have "appended depth ({pre} \<union> {pre}) c c' (?new1 @ new2)"
      by (rule appended_trans)
    then show ?thesis by auto
  qed
qed

lemma visit_addrs_appended:
  assumes "frontier_states c depth = Some old" "visit_addrs I depth pre as n c = (e, n', c')"
  shows "\<exists>new. appended depth {pre} c c' new"
  using assms
proof (induction as arbitrary: n c old)
  case Nil
  then show ?case by (fastforce intro: appended_refl)
next
  case (Cons a as)
  show ?case
  proof (cases "n = 0")
    case True
    with Cons.prems show ?thesis by (fastforce intro: appended_refl)
  next
    case n: False
    show ?thesis
    proof (cases "a = FOUNDRY_TEST I")
      case True
      with n Cons.prems(2) have "visit_addrs I depth pre as n c = (e, n', c')" by simp
      from Cons.IH [OF Cons.prems(1) this] show ?thesis .
    next
      case False
      let ?r = "run_target_contract I pre a"
      obtain m c1 where v: "visit_posts I depth pre a (yielded ?r) n c = (m, c1)"
        by (cases "visit_posts I depth pre a (yielded ?r) n c")
      from visit_posts_appended [OF Cons.prems(1) v]
      obtain new1 where a1: "appended depth {pre} c c1 new1" ..
      then obtain old1 where o1: "frontier_states c1 depth = Some old1"
        by (auto elim: appended_entry)
      show ?thesis
      proof (cases "m = 0 \<or> raised ?r \<noteq> None")
        case True
        with Cons.prems(2) n False v have "c' = c1"
          by (auto simp: Let_def split: if_splits option.splits)
        with a1 show ?thesis by auto
      next
        case False
        with Cons.prems(2) n \<open>a \<noteq> FOUNDRY_TEST I\<close> v
        have "visit_addrs I depth pre as m c1 = (e, n', c')"
          by (auto simp: Let_def)
        from Cons.IH [OF o1 this] obtain new2 where "appended depth {pre} c1 c' new2" ..
        with a1 have "appended depth ({pre} \<union> {pre}) c c' (new1 @ new2)"
          by (rule appended_trans)
        then show ?thesis by auto
      qed
    qed
  qed
qed

lemma appended_mono: "appended depth pres c c' new \<Longrightarrow> pres \<subseteq> pres' \<Longrightarrow> appended depth pres' c c' new"
  unfolding appended_def by blast

lemma visit_states_appended:
  assumes "frontier_states c depth = Some old" "visit_states I depth prev n c = (e, n', c')"
  shows "\<exists>new. appended depth (set prev) c c' new"
  using assms
proof (induction prev arbitrary: n c old)
  case Nil
  then show ?case by (fastforce intro: appended_refl)
next
  case (Cons pre prev)
  show ?case
  proof (cases "n = 0")
    case True
    with Cons.prems show ?thesis by (fastforce intro: appended_refl)
  next
    case n: False
    obtain e1 m c1 where v: "visit_addrs I depth pre (map fst (code pre)) n c = (e1, m, c1)"
      by (cases "visit_addrs I depth pre (map fst (code pre)) n c") auto
    from visit_addrs_appended [OF Cons.prems(1) v]
    obtain new1 where a1: "appended depth {pre} c c1 new1" ..
    then obtain old1 where o1: "frontier_states c1 depth = Some old1"
      by (auto elim: appended_entry)
    show ?thesis
    proof (cases e1)
      case (Some err)
      with Cons.prems(2) n v have "c' = c1" by simp
      with a1 have "appended depth {pre} c c' new1" by simp
      then have "appended depth (set (pre # prev)) c c' new1"
        by (rule appended_mono) simp
      then show ?thesis ..
    next
      case None
      with Cons.prems(2) n v have "visit_states I depth prev m c1 = (e, n', c')" by simp
      from Cons.IH [OF o1 this] obtain new2 where "appended depth (set prev) c1 c' new2" ..
      with a1 have "appended depth ({pre} \<union> set prev) c c' (new1 @ new2)"
        by (rule appended_trans)
      then show ?thesis by auto
    qed
  qed
qed

lemma compute_frontier_effect:
  assumes "compute_frontier I c depth n = (e, c')"
  shows "c' = c \<or> (\<exists>prev new. frontier_states c (depth - 1) = Some prev
            \<and> appended depth (set prev) (c\<lparr>frontier_states := (frontier_states c)(depth \<mapsto> [])\<rparr>) c' new)"
proof (cases "n = 0 \<or> frontier_states c (depth - 1) = None")
  case True
  with assms show ?thesis by (auto simp: compute_frontier_def split: if_splits)
next
  case False
  then obtain prev where p: "frontier_states c (depth - 1) = Some prev" by auto
  let ?c0 = "c\<lparr>frontier_states := (frontier_states c)(depth \<mapsto> [])\<rparr>"
  obtain e1 m c1 where v: "visit_states I depth prev n ?c0 = (e1, m, c1)"
    by (cases "visit_states I depth prev n ?c0") auto
  with assms False p have "c' = c1" by (simp add: compute_frontier_def)
  moreover have "frontier_states ?c0 depth = Some []" by simp
  from visit_states_appended [OF this v] obtain new where "appended depth (set prev) ?c0 c1 new" ..
  ultimately show ?thesis using p by blast
qed

lemma get_frontier_effect:
  assumes "get_frontier I c depth n = (e, fr, c')"
  shows "c' = c \<or> (frontier_states c depth = None
            \<and> (\<exists>prev new. frontier_states c (depth - 1) = Some prev
                 \<and> appended depth (set prev)
                      (c\<lparr>frontier_states := (frontier_states c)(depth \<mapsto> [])\<rparr>) c' new))"
proof (cases "frontier_states c depth")
  case (Some a)
  with assms show ?thesis by (simp add: get_frontier_def)
next
  case None
  obtain e1 c1 where cf: "compute_frontier I c depth n = (e1, c1)"
    by (cases "compute_frontier I c depth n")
  with assms None have "c' = c1" by (simp add: get_frontier_def)
  with compute_frontier_effect [OF cf] None show ?thesis by simp
qed

text \<open>What a computed frontier looks like in terms of the cache before.\<close>

lemma appended_from_empty:
  assumes "appended depth pres (c\<lparr>frontier_states := (frontier_states c)(depth \<mapsto> [])\<rparr>) c' new"
  shows "frontier_states c' = (frontier_states c)(depth \<mapsto> new)"
    and "visited c \<subseteq> visited c'"
    and "finite (visited c) \<Longrightarrow> finite (visited c') \<and> card (visited c') = card (visited c) + length new"
    and "\<forall>s \<in> set new. \<exists>p \<in> pres. extends_state depth p s"
  using assms by (auto simp: appended_def)

lemma placed_states_new_entry:
  assumes "finite (dom m)" "depth \<notin> dom m"
  shows "(\<Sum>d \<in> dom (m(depth \<mapsto> new)). length (the ((m(depth \<mapsto> new)) d)))
           = (\<Sum>d \<in> dom m. length (the (m d))) + length new"
proof -
  have "(\<Sum>d \<in> dom m. length (the ((m(depth \<mapsto> new)) d))) = (\<Sum>d \<in> dom m. length (the (m d)))"
    using assms(2) by (intro sum.cong) auto
  then show ?thesis using assms by simp
qed

lemma frontier_inv_step:
  assumes inv: "frontier_inv c"
    and none: "frontier_states c depth = None"
    and prev: "frontier_states c (depth - 1) = Some prev"
    and app: "appended depth (set prev) (c\<lparr>frontier_states := (frontier_states c)(depth \<mapsto> [])\<rparr>) c' new"
  shows "frontier_inv c'"
proof -
  note a = appended_from_empty [OF app]
  from inv have fin: "finite (dom (frontier_states c))" "finite (visited c)"
    and dom: "\<forall>d \<in> dom (frontier_states c). 0 \<le> d \<and> (d = 0 \<or> d - 1 \<in> dom (frontier_states c))"
    and card: "card (visited c) = placed_states c"
    and link: "\<forall>d fr s. frontier_states c d = Some fr \<longrightarrow> s \<in> set fr \<longrightarrow> d \<noteq> 0 \<longrightarrow>
           (\<exists>frp. frontier_states c (d - 1) = Some frp \<and> (\<exists>p \<in> set frp. extends_state d p s))"
    by (simp_all add: frontier_inv_def)
  from none have nd: "depth \<notin> dom (frontier_states c)" by auto
  from prev have pd: "depth - 1 \<in> dom (frontier_states c)" by auto
  with dom have d1: "0 \<le> depth - 1" by blast
  have 1: "finite (dom (frontier_states c'))" using fin a(1) by simp
  have 2: "finite (visited c')" using fin a(3) by simp
  have 3: "\<forall>d \<in> dom (frontier_states c'). 0 \<le> d \<and> (d = 0 \<or> d - 1 \<in> dom (frontier_states c'))"
    using dom pd d1 by (auto simp: a(1))
  have 4: "card (visited c') = placed_states c'"
    using a(3) fin card placed_states_new_entry [OF fin(1) nd, of new]
    by (simp add: placed_states_def a(1))
  have 5: "\<exists>frp. frontier_states c' (d - 1) = Some frp \<and> (\<exists>p \<in> set frp. extends_state d p s)"
    if h: "frontier_states c' d = Some fr" "s \<in> set fr" "d \<noteq> 0" for d fr s
  proof (cases "d = depth")
    case True
    with h a(1) have "s \<in> set new" by simp
    with a(4) obtain p where "p \<in> set prev" "extends_state depth p s" by blast
    moreover have "frontier_states c' (depth - 1) = Some prev" using prev by (simp add: a(1))
    ultimately show ?thesis using True by blast
  next
    case False
    with h a(1) have o: "frontier_states c d = Some fr" by simp
    with link h obtain frp p where
      f: "frontier_states c (d - 1) = Some frp" "p \<in> set frp" "extends_state d p s" by blast
    from f(1) none have "d - 1 \<noteq> depth" by auto
    with f(1) have "frontier_states c' (d - 1) = Some frp" by (simp add: a(1))
    with f show ?thesis by blast
  qed
  from 1 2 3 4 5 show ?thesis unfolding frontier_inv_def by blast
qed

lemma frontier_inv_get_frontier:
  assumes "frontier_inv c"
  shows "frontier_inv (snd (snd (get_frontier I c depth n)))"
proof -
  obtain e fr c' where g: "get_frontier I c depth n = (e, fr, c')"
    by (cases "get_frontier I c depth n") auto
  from get_frontier_effect [OF g] assms have "frontier_inv c'"
    by (auto intro: frontier_inv_step)
  with g show ?thesis by simp
qed

lemma frontier_inv_init: "frontier_inv (run_contract_init I setup_ex)"
  by (simp add: frontier_inv_def run_contract_init_def Let_def placed_states_def)

lemma frontier_inv_get_frontiers:
  "frontier_inv c \<Longrightarrow> frontier_inv (get_frontiers I calls c)"
proof (induction calls arbitrary: c)
  case Nil
  then show ?case by simp
next
  case (Cons call calls)
  obtain depth n where "call = (depth, n)" by (cases call)
  with Cons show ?case by (simp add: frontier_inv_get_frontier)
qed

section \<open>Evaluation of the explorer on the example\<close>

lemma example_depth_0:
  "frontier_states (get_frontiers example_interp_late example_calls
       (run_contract_init example_interp_late example_target)) 0 = Some [example_target]"
  by code_simp

lemma example_depth_1:
  "frontier_states (get_frontiers example_interp_late example_calls
       (run_contract_init example_interp_late example_target)) 1 = Some [example_placed]"
  by code_simp

lemma example_visited:
  "visited (get_frontiers example_interp_late example_calls
       (run_contract_init example_interp_late example_target)) = {0, 1}"
  by code_simp

lemma example_visit_fresh:
  "fst (visit_post example_interp_late 1 example_target 1 (example_exec None None 1)
          (run_contract_init example_interp_late example_target)) = Some example_placed"
  by code_simp

lemma example_not_stuck:
  "\<not> is_stuck (context' (example_exec None None b))"
  "output_error (context' (example_exec None None b)) = None"
  by (simp_all add: is_stuck_def example_exec_def)

lemma example_init_visited:
  "visited (run_contract_init example_interp_late example_target) = {0}"
  by (simp add: run_contract_init_def example_interp_late_def example_interp_def
      get_state_id_def example_target_def)

lemma example_ids:
  "get_state_id example_interp_late (path_slice example_interp_late (example_exec None None b)) = b"
  by (simp add: example_interp_late_def example_interp_def get_state_id_def example_exec_def)

section \<open>Memoization\<close>

lemma get_frontier_keeps_entry:
  assumes "frontier_states c depth = Some frontier"
  shows "frontier_states (snd (snd (get_frontier I c d n))) depth = Some frontier"
proof -
  obtain e fr c' where g: "get_frontier I c d n = (e, fr, c')"
    by (cases "get_frontier I c d n") auto
  from get_frontier_effect [OF g] have "frontier_states c' depth = Some frontier"
  proof
    assume "c' = c"
    with assms show ?thesis by simp
  next
    assume a: "frontier_states c d = None \<and> (\<exists>prev new. frontier_states c (d - 1) = Some prev
                 \<and> appended d (set prev) (c\<lparr>frontier_states := (frontier_states c)(d \<mapsto> [])\<rparr>) c' new)"
    then obtain prev new where
      "appended d (set prev) (c\<lparr>frontier_states := (frontier_states c)(d \<mapsto> [])\<rparr>) c' new"
      by blast
    from appended_from_empty(1) [OF this] a assms show ?thesis by auto
  qed
  with g show ?thesis by simp
qed

lemma get_frontiers_keeps_entry:
  "frontier_states c depth = Some frontier
   \<Longrightarrow> frontier_states (get_frontiers I calls c) depth = Some frontier"
proof (induction calls arbitrary: c)
  case Nil
  then show ?case by simp
next
  case (Cons call calls)
  obtain d n where "call = (d, n)" by (cases call)
  with Cons show ?case by (simp add: get_frontier_keeps_entry)
qed

lemma get_frontier_cached:
  "frontier_states c depth = Some frontier \<Longrightarrow> get_frontier I c depth n = (None, frontier, c)"
  by (simp add: get_frontier_def)

lemma get_frontiers_all_cached:
  "\<forall>call \<in> set calls. fst call \<in> dom (frontier_states c) \<Longrightarrow> get_frontiers I calls c = c"
proof (induction calls)
  case Nil
  then show ?case by simp
next
  case (Cons call calls)
  obtain d n where c: "call = (d, n)" by (cases call)
  with Cons.prems obtain fr where "frontier_states c d = Some fr" by auto
  then have "get_frontier I c d n = (None, fr, c)" by (rule get_frontier_cached)
  with Cons c show ?case by simp
qed

text \<open>
  C5. When the cache has an entry for a depth, \<open>get_frontier\<close> returns that entry as it is
  and leaves the whole context as it was: nothing is recomputed, and the Visited Set and the
  cache are unchanged. Whatever calls of \<open>get_frontier\<close> follow, for any depths, the entry
  stays the same; and calls for depths that are all in the cache change nothing at all.
\<close>

theorem cached_frontier_is_reused:
  assumes "frontier_states c depth = Some frontier"
  shows "get_frontier I c depth n = (None, frontier, c)
     \<and> frontier_states (get_frontiers I calls c) depth = Some frontier
     \<and> ((\<forall>call \<in> set calls. fst call \<in> dom (frontier_states c)) \<longrightarrow>
           get_frontiers I calls c = c)"
  using assms get_frontier_cached get_frontiers_keeps_entry get_frontiers_all_cached
  by blast

theorem cached_frontier_is_reused_witness:
  "get_frontier example_interp_late
       (get_frontiers example_interp_late example_calls
          (run_contract_init example_interp_late example_target)) 1 3
     = (None, [example_placed],
        get_frontiers example_interp_late example_calls
          (run_contract_init example_interp_late example_target))
   \<and> get_frontiers example_interp_late [(1, 9), (0, 2)]
        (get_frontiers example_interp_late example_calls
          (run_contract_init example_interp_late example_target))
     = get_frontiers example_interp_late example_calls
          (run_contract_init example_interp_late example_target)"
  using cached_frontier_is_reused
      [where I = example_interp_late and n = 3 and calls = "[(1, 9), (0, 2)]", OF example_depth_1]
    example_depth_0 example_depth_1
  by (simp add: dom_def)

section \<open>Deduplication by fingerprint\<close>

lemma visit_post_visited:
  assumes "\<not> is_stuck (context' post_ex)" "output_error (context' post_ex) = None"
    "get_state_id I (path_slice I post_ex) \<in> visited c"
  shows "visit_post I depth pre_ex a post_ex c = (None, c)"
  using assms by (simp add: visit_post_def Let_def)

lemma visit_post_fresh:
  assumes "\<not> is_stuck (context' post_ex)" "output_error (context' post_ex) = None"
    "get_state_id I (path_slice I post_ex) \<notin> visited c"
  shows "\<exists>placed. fst (visit_post I depth pre_ex a post_ex c) = Some placed
     \<and> visited (snd (visit_post I depth pre_ex a post_ex c))
         = insert (get_state_id I (path_slice I post_ex)) (visited c)
     \<and> frontier_states (snd (visit_post I depth pre_ex a post_ex c)) depth
         = Some ((case frontier_states c depth of None \<Rightarrow> [] | Some next_exs \<Rightarrow> next_exs)
                 @ [placed])"
  using assms by (simp add: visit_post_def Let_def)

text \<open>
  C2. A post-state that is neither stuck nor reverted is path-sliced and its fingerprint is
  computed. If the fingerprint is in the Visited Set, nothing is yielded and the context is
  unchanged: the state is not appended to the frontier. Otherwise the state is yielded, the
  fingerprint is added to the Visited Set and the state is appended to the frontier of the
  depth. Every state placed thus brings a fingerprint that was not there, so after any
  sequence of calls from the initial context the Visited Set has exactly as many
  fingerprints as there are states in all frontiers: no two of them were placed under the
  same fingerprint.
\<close>

theorem visited_states_are_discarded:
  assumes "\<not> is_stuck (context' post_ex)" "output_error (context' post_ex) = None"
  shows "(get_state_id I (path_slice I post_ex) \<in> visited c \<longrightarrow>
            visit_post I depth pre_ex a post_ex c = (None, c))
     \<and> (get_state_id I (path_slice I post_ex) \<notin> visited c \<longrightarrow>
          (\<exists>placed. fst (visit_post I depth pre_ex a post_ex c) = Some placed
             \<and> visited (snd (visit_post I depth pre_ex a post_ex c))
                 = insert (get_state_id I (path_slice I post_ex)) (visited c)
             \<and> frontier_states (snd (visit_post I depth pre_ex a post_ex c)) depth
                 = Some ((case frontier_states c depth of None \<Rightarrow> []
                          | Some next_exs \<Rightarrow> next_exs) @ [placed])))
     \<and> finite (visited (get_frontiers I calls (run_contract_init I setup_ex)))
     \<and> card (visited (get_frontiers I calls (run_contract_init I setup_ex)))
         = placed_states (get_frontiers I calls (run_contract_init I setup_ex))"
proof -
  have "frontier_inv (get_frontiers I calls (run_contract_init I setup_ex))"
    by (intro frontier_inv_get_frontiers frontier_inv_init)
  then have "finite (visited (get_frontiers I calls (run_contract_init I setup_ex)))"
    "card (visited (get_frontiers I calls (run_contract_init I setup_ex)))
         = placed_states (get_frontiers I calls (run_contract_init I setup_ex))"
    by (simp_all add: frontier_inv_def)
  with visit_post_visited [OF assms, of I c depth pre_ex a]
    visit_post_fresh [OF assms, of I c depth pre_ex a]
  show ?thesis by blast
qed

theorem visited_states_are_discarded_witness:
  "visit_post example_interp_late 1 example_target 1 (example_exec None None 0)
       (run_contract_init example_interp_late example_target)
     = (None, run_contract_init example_interp_late example_target)
   \<and> fst (visit_post example_interp_late 1 example_target 1 (example_exec None None 1)
            (run_contract_init example_interp_late example_target)) = Some example_placed
   \<and> placed_states (get_frontiers example_interp_late example_calls
          (run_contract_init example_interp_late example_target)) = 2"
  using visited_states_are_discarded
      [where I = example_interp_late and post_ex = "example_exec None None 0"
         and c = "run_contract_init example_interp_late example_target" and depth = 1
         and pre_ex = example_target and a = 1 and calls = example_calls
         and setup_ex = example_target, OF example_not_stuck]
    visited_states_are_discarded
      [where I = example_interp_late and post_ex = "example_exec None None 1"
         and c = "run_contract_init example_interp_late example_target" and depth = 1
         and pre_ex = example_target and a = 1 and calls = example_calls
         and setup_ex = example_target, OF example_not_stuck]
    example_visit_fresh example_visited
  by (simp add: example_ids example_init_visited)

section \<open>Call sequences\<close>

lemma extends_call_sequence:
  "extends_state d p s \<Longrightarrow> call_sequence s = call_sequence p @ [last (call_sequence s)]"
  by (metis append_butlast_last_id extends_state_def)


lemma frontier_lengths:
  assumes inv: "frontier_inv c"
    and base: "\<And>fr s. frontier_states c 0 = Some fr \<Longrightarrow> s \<in> set fr \<Longrightarrow> call_sequence s = []"
  shows "frontier_states c d = Some fr \<Longrightarrow> s \<in> set fr \<Longrightarrow> int (length (call_sequence s)) = d"
proof (induction "nat d" arbitrary: d fr s)
  case 0
  from inv 0(2) have "0 \<le> d" by (auto simp: frontier_inv_def)
  with 0(1) have "d = 0" by simp
  with 0 base show ?case by simp
next
  case (Suc k)
  then have d: "d \<noteq> 0" "nat (d - 1) = k" by auto
  from inv Suc(3,4) d(1) obtain frp p where
    p: "frontier_states c (d - 1) = Some frp" "p \<in> set frp" "extends_state d p s"
    unfolding frontier_inv_def by blast
  from Suc(1) [OF d(2) [symmetric] p(1) p(2)] have "int (length (call_sequence p)) = d - 1" .
  moreover from extends_call_sequence [OF p(3)]
  have "length (call_sequence s) = length (call_sequence p) + 1"
    by (metis length_append_singleton Suc_eq_plus1)
  ultimately show ?case by simp
qed

text \<open>
  C6. When the setup state has an empty call sequence, then after any sequence of calls of
  \<open>get_frontier\<close> every state in the frontier of a depth \<open>d\<close> has a call sequence of
  length \<open>d\<close>; depth 0 holds the setup state alone; and for \<open>d\<close> other than 0 the call
  sequence is that of a state in the frontier of \<open>d - 1\<close> with one call context appended.
\<close>

theorem call_sequence_length_is_depth:
  assumes "call_sequence (path_slice I setup_ex) = []"
    and "frontier_states (get_frontiers I calls (run_contract_init I setup_ex)) d = Some fr"
    and "s \<in> set fr"
  shows "int (length (call_sequence s)) = d
     \<and> frontier_states (get_frontiers I calls (run_contract_init I setup_ex)) 0
         = Some [path_slice I setup_ex]
     \<and> (d \<noteq> 0 \<longrightarrow>
          (\<exists>frp. frontier_states (get_frontiers I calls (run_contract_init I setup_ex)) (d - 1)
                   = Some frp
                 \<and> (\<exists>p \<in> set frp. \<exists>sub. call_sequence s = call_sequence p @ [sub])))"
proof -
  let ?c = "get_frontiers I calls (run_contract_init I setup_ex)"
  have inv: "frontier_inv ?c"
    by (intro frontier_inv_get_frontiers frontier_inv_init)
  have "frontier_states (run_contract_init I setup_ex) 0 = Some [path_slice I setup_ex]"
    by (simp add: run_contract_init_def Let_def)
  then have z: "frontier_states ?c 0 = Some [path_slice I setup_ex]"
    by (rule get_frontiers_keeps_entry)
  have len: "int (length (call_sequence s)) = d"
    by (rule frontier_lengths [OF inv _ assms(2,3)]) (use z assms(1) in auto)
  have "\<exists>frp. frontier_states ?c (d - 1) = Some frp
                 \<and> (\<exists>p \<in> set frp. \<exists>sub. call_sequence s = call_sequence p @ [sub])"
    if "d \<noteq> 0"
  proof -
    from inv assms(2,3) that obtain frp p where
      p: "frontier_states ?c (d - 1) = Some frp" "p \<in> set frp" "extends_state d p s"
      unfolding frontier_inv_def by blast
    from extends_call_sequence [OF p(3)] p(1,2) show ?thesis by blast
  qed
  with len z show ?thesis by blast
qed

theorem call_sequence_length_is_depth_witness:
  "call_sequence (path_slice example_interp_late example_target) = []
   \<and> frontier_states (get_frontiers example_interp_late example_calls
          (run_contract_init example_interp_late example_target)) 1 = Some [example_placed]
   \<and> int (length (call_sequence example_placed)) = 1
   \<and> call_sequence example_placed = call_sequence example_target @ [last (call_sequence example_placed)]"
proof -
  have 1: "call_sequence (path_slice example_interp_late example_target) = []"
    by (simp add: example_interp_late_def example_interp_def example_target_def)
  have 2: "example_placed \<in> set [example_placed]" by simp
  from call_sequence_length_is_depth [OF 1 example_depth_1 2] 1 example_depth_1
  show ?thesis by (simp add: example_placed_def example_target_def)
qed

section \<open>Timestamps\<close>




end
